theory Spec2Isabelle
  imports Complex_Main "HOL-Library.Sublist"
begin

section \<open>Numbers\<close>

text \<open>
  A JavaScript number is modelled as a \<^typ>\<open>real\<close>: rounding, overflow and signed zeros are
  left out. Where the source divides by a value that can be zero for a finite input, the
  model says so with a value of its own (\<open>NotFinite\<close>, \<open>NormNaN\<close>) instead of using the
  total division of HOL, which would silently return 0 where JavaScript returns NaN.
  Counters and results of \<open>Math.ceil\<close> are integers.
\<close>

text \<open>\<open>Math.atan2(y, x)\<close> on finite arguments.\<close>

definition js_atan2 :: "real \<Rightarrow> real \<Rightarrow> real" where
  "js_atan2 b a =
     (if 0 < a then arctan (b / a)
      else if a < 0 then (if 0 \<le> b then arctan (b / a) + pi else arctan (b / a) - pi)
      else if 0 < b then pi / 2
      else if b < 0 then - (pi / 2)
      else 0)"

text \<open>\<open>v % 1\<close>: the remainder has the sign of the dividend (truncated division).\<close>

definition js_mod1 :: "real \<Rightarrow> real" where
  "js_mod1 v = (if 0 \<le> v then v - of_int \<lfloor>v\<rfloor> else v - of_int \<lceil>v\<rceil>)"

section \<open>constants.js\<close>

definition POINTS_PER_SIDE :: real where
  "POINTS_PER_SIDE = 50"

definition POINTS_PER_RADIAN :: real where
  "POINTS_PER_RADIAN = 30"

definition DECIMAL_PRECISION :: real where
  "DECIMAL_PRECISION = 6"

definition TWO_PI :: real where
  "TWO_PI = pi * 2"

definition HALF_PI :: real where
  "HALF_PI = pi / 2"

section \<open>Plane points and the samples of a curve\<close>

text \<open>The object \<open>{x, y}\<close>.\<close>

record vec2 =
  vx :: real
  vy :: real

text \<open>
  A sample of a curve is an object with \<open>x\<close>, \<open>y\<close> and the properties its producer adds:
  \<open>theta\<close> and \<open>center\<close> for a cycloid, \<open>sideIndex\<close>, \<open>rotation\<close>, \<open>pivot\<close> and \<open>center\<close> for
  a cyclogon, none for a point added by hand.
\<close>

datatype sample_extra =
    NoExtra
  | CycloidExtra real vec2
  | CyclogonExtra int real vec2 vec2

record sample =
  sx :: real
  sy :: real
  extra :: sample_extra

text \<open>The parameter a sample records: \<open>theta\<close> of a cycloid, \<open>rotation\<close> of a cyclogon.\<close>

definition sample_param :: "sample \<Rightarrow> real option" where
  "sample_param s =
     (case extra s of
        NoExtra \<Rightarrow> None
      | CycloidExtra th c \<Rightarrow> Some th
      | CyclogonExtra si rot pv c \<Rightarrow> Some rot)"

definition sample_center :: "sample \<Rightarrow> vec2 option" where
  "sample_center s =
     (case extra s of
        NoExtra \<Rightarrow> None
      | CycloidExtra th c \<Rightarrow> Some c
      | CyclogonExtra si rot pv c \<Rightarrow> Some c)"

definition sample_pivot :: "sample \<Rightarrow> vec2 option" where
  "sample_pivot s =
     (case extra s of
        CyclogonExtra si rot pv c \<Rightarrow> Some pv
      | _ \<Rightarrow> None)"

definition sample_sideIndex :: "sample \<Rightarrow> int option" where
  "sample_sideIndex s =
     (case extra s of
        CyclogonExtra si rot pv c \<Rightarrow> Some si
      | _ \<Rightarrow> None)"

section \<open>Errors\<close>

text \<open>
  The source throws \<open>Error\<close> objects that differ by their message only; one constructor stands
  for each message. \<open>TypeError\<close> is what JavaScript throws on a property read of \<open>null\<close> or
  \<open>undefined\<close>, \<open>RangeError\<close> what it throws when a recursion exhausts the call stack.
\<close>

datatype error =
    SidesTooFew
  | RadiusNotPositive
  | UnsupportedShape
  | UnsupportedSnapShape
  | UnsupportedResetShape
  | TypeError
  | RangeError

section \<open>Circle.js\<close>

record circle =
  c_radius :: real
  c_center :: vec2

definition origin :: vec2 where
  "origin = \<lparr>vx = 0, vy = 0\<rparr>"

definition new_Circle :: "real \<Rightarrow> vec2 \<Rightarrow> error + circle" where
  "new_Circle r c = (if r \<le> 0 then Inl RadiusNotPositive else Inr \<lparr>c_radius = r, c_center = c\<rparr>)"

definition getPointOnCircle :: "circle \<Rightarrow> real \<Rightarrow> vec2" where
  "getPointOnCircle c angle =
     \<lparr>vx = vx (c_center c) + cos angle * c_radius c,
      vy = vy (c_center c) + sin angle * c_radius c\<rparr>"

definition getTopPoint :: "circle \<Rightarrow> vec2" where
  "getTopPoint c = getPointOnCircle c HALF_PI"

definition angleToPoint :: "circle \<Rightarrow> vec2 \<Rightarrow> real" where
  "angleToPoint c p = js_atan2 (vy p - vy (c_center c)) (vx p - vx (c_center c))"

text \<open>\<open>projectToBorder\<close> returns \<open>{x, y, angle}\<close>: the pair of the point and the angle.\<close>

definition projectToBorder :: "circle \<Rightarrow> vec2 \<Rightarrow> vec2 \<times> real" where
  "projectToBorder c p = (let angle = angleToPoint c p in (getPointOnCircle c angle, angle))"

section \<open>Polygon.js\<close>

record edge =
  e_start :: vec2
  e_end :: vec2
  e_index :: nat

record vertex =
  v_x :: real
  v_y :: real
  v_angle :: real
  v_index :: nat

definition vertex_pos :: "vertex \<Rightarrow> vec2" where
  "vertex_pos v = \<lparr>vx = v_x v, vy = v_y v\<rparr>"

definition getPointAt :: "edge \<Rightarrow> real \<Rightarrow> vec2" where
  "getPointAt e t0 =
     (let t = max 0 (min 1 t0)
      in \<lparr>vx = vx (e_start e) + t * (vx (e_end e) - vx (e_start e)),
          vy = vy (e_start e) + t * (vy (e_end e) - vy (e_start e))\<rparr>)"

record edge_distance =
  ed_distance :: real
  ed_closestPoint :: vec2
  ed_t :: real

definition distanceToPoint :: "edge \<Rightarrow> vec2 \<Rightarrow> edge_distance" where
  "distanceToPoint e p =
     (let dx = vx (e_end e) - vx (e_start e);
          dy = vy (e_end e) - vy (e_start e);
          lengthSquared = dx * dx + dy * dy
      in if lengthSquared = 0
         then \<lparr>ed_distance = sqrt ((vx p - vx (e_start e))\<^sup>2 + (vy p - vy (e_start e))\<^sup>2),
               ed_closestPoint = e_start e, ed_t = 0\<rparr>
         else
           (let t = max 0 (min 1 (((vx p - vx (e_start e)) * dx + (vy p - vy (e_start e)) * dy)
                                   / lengthSquared));
                closestPoint = \<lparr>vx = vx (e_start e) + t * dx, vy = vy (e_start e) + t * dy\<rparr>
            in \<lparr>ed_distance = sqrt ((vx p - vx closestPoint)\<^sup>2 + (vy p - vy closestPoint)\<^sup>2),
                ed_closestPoint = closestPoint, ed_t = t\<rparr>))"

text \<open>
  \<open>getNormal\<close> divides by the length of the edge, which is positive for every edge of a
  polygon built by the constructor (lemma \<open>edge_length_pos\<close> below).
\<close>

definition getLength :: "edge \<Rightarrow> real" where
  "getLength e =
     (let dx = vx (e_end e) - vx (e_start e); dy = vy (e_end e) - vy (e_start e)
      in sqrt (dx * dx + dy * dy))"

definition getNormal :: "edge \<Rightarrow> vec2" where
  "getNormal e =
     (let dx = vx (e_end e) - vx (e_start e);
          dy = vy (e_end e) - vy (e_start e);
          length = sqrt (dx * dx + dy * dy)
      in \<lparr>vx = dy / length, vy = - dx / length\<rparr>)"

record polygon =
  p_sides :: nat
  p_radius :: real
  p_rotationOffset :: real
  p_vertices :: "vertex list"
  p_edges :: "edge list"

text \<open>
  \<open>_calculateGeometry\<close>: two counted loops, each pushing one element per index
  \<open>0 \<le> i < sides\<close>.
\<close>

definition calc_vertices :: "nat \<Rightarrow> real \<Rightarrow> real \<Rightarrow> vertex list" where
  "calc_vertices n r off =
     (let angleStep = TWO_PI / real n
      in map (\<lambda>i. let angle = off + real i * angleStep
                  in \<lparr>v_x = cos angle * r, v_y = sin angle * r, v_angle = angle, v_index = i\<rparr>)
             [0..<n])"

definition calc_edges :: "nat \<Rightarrow> vertex list \<Rightarrow> edge list" where
  "calc_edges n vs =
     map (\<lambda>i. \<lparr>e_start = vertex_pos (vs ! i), e_end = vertex_pos (vs ! ((i + 1) mod n)),
               e_index = i\<rparr>)
         [0..<n]"

definition calculateGeometry :: "polygon \<Rightarrow> polygon" where
  "calculateGeometry pg =
     (let vs = calc_vertices (p_sides pg) (p_radius pg) (p_rotationOffset pg)
      in pg\<lparr>p_vertices := vs, p_edges := calc_edges (p_sides pg) vs\<rparr>)"

definition new_Polygon :: "nat \<Rightarrow> real \<Rightarrow> real \<Rightarrow> error + polygon" where
  "new_Polygon n r off =
     (if n < 3 then Inl SidesTooFew
      else if r \<le> 0 then Inl RadiusNotPositive
      else Inr (calculateGeometry
                  \<lparr>p_sides = n, p_radius = r, p_rotationOffset = off,
                   p_vertices = [], p_edges = []\<rparr>))"

definition getSideLength :: "polygon \<Rightarrow> real" where
  "getSideLength pg = 2 * p_radius pg * sin (pi / real (p_sides pg))"

definition getApothem :: "polygon \<Rightarrow> real" where
  "getApothem pg = p_radius pg * cos (pi / real (p_sides pg))"

definition getInteriorAngle :: "polygon \<Rightarrow> real" where
  "getInteriorAngle pg = ((real (p_sides pg) - 2) * pi) / real (p_sides pg)"

definition getExteriorAngle :: "polygon \<Rightarrow> real" where
  "getExteriorAngle pg = TWO_PI / real (p_sides pg)"

text \<open>
  The remainder \<open>a % b\<close> of JavaScript on integers takes the sign of the dividend.
\<close>

definition js_rem :: "int \<Rightarrow> int \<Rightarrow> int" where
  "js_rem a b = sgn a * (\<bar>a\<bar> mod \<bar>b\<bar>)"

definition normalizedIndex :: "polygon \<Rightarrow> int \<Rightarrow> nat" where
  "normalizedIndex pg i = nat (js_rem (js_rem i (int (p_sides pg)) + int (p_sides pg)) (int (p_sides pg)))"

text \<open>
  \<open>getEdge\<close> reads \<open>_edges[normalizedIndex]\<close>, which is within the array for every polygon
  built by the constructor (lemma \<open>normalizedIndex_in_range\<close> below).
\<close>

definition getEdge :: "polygon \<Rightarrow> int \<Rightarrow> edge" where
  "getEdge pg i = p_edges pg ! normalizedIndex pg i"

definition getTopVertex :: "polygon \<Rightarrow> vertex option" where
  "getTopVertex pg =
     (case p_vertices pg of
        [] \<Rightarrow> None
      | v # vs \<Rightarrow> Some (fold (\<lambda>w top. if v_y w > v_y top then w else top) (v # vs) v))"

record closest_edge =
  ce_edge :: edge
  ce_distance :: real
  ce_closestPoint :: vec2
  ce_t :: real
  ce_edgeIndex :: nat

text \<open>
  \<open>findClosestEdge\<close>: \<open>minDistance\<close> starts at \<open>Infinity\<close>, so the first edge always replaces
  the initial \<open>null\<close>; the accumulator \<open>None\<close> stands for that initial state.
\<close>

fun findClosestEdge_loop :: "vec2 \<Rightarrow> edge list \<Rightarrow> nat \<Rightarrow> closest_edge option \<Rightarrow> closest_edge option" where
  "findClosestEdge_loop p [] i acc = acc"
| "findClosestEdge_loop p (e # es) i acc =
     (let distResult = distanceToPoint e p;
          better = (case acc of None \<Rightarrow> True | Some r \<Rightarrow> ed_distance distResult < ce_distance r)
      in findClosestEdge_loop p es (i + 1)
           (if better
            then Some \<lparr>ce_edge = e, ce_distance = ed_distance distResult,
                       ce_closestPoint = ed_closestPoint distResult, ce_t = ed_t distResult,
                       ce_edgeIndex = i\<rparr>
            else acc))"

definition findClosestEdge :: "polygon \<Rightarrow> vec2 \<Rightarrow> closest_edge option" where
  "findClosestEdge pg p = findClosestEdge_loop p (p_edges pg) 0 None"

datatype shape = Circle circle | Polygon polygon | OtherShape

section \<open>Cyclogon.js\<close>

datatype curve_type = CYCLOID | CYCLOGON | EPITROCHOID | HYPOTROCHOID | MERGED

text \<open>
  The curve: its type, the shape that produced it, its samples in insertion order and its
  metadata, a dictionary from names to numbers. The creation timestamp is left out.
\<close>

record cyclogon =
  g_type :: curve_type
  g_sourceShape :: "shape option"
  g_points :: "sample list"
  g_metadata :: "string \<rightharpoonup> real"

definition new_Cyclogon :: "curve_type \<Rightarrow> shape option \<Rightarrow> cyclogon" where
  "new_Cyclogon ty sh = \<lparr>g_type = ty, g_sourceShape = sh, g_points = [], g_metadata = Map.empty\<rparr>"

definition pointCount :: "cyclogon \<Rightarrow> nat" where
  "pointCount g = length (g_points g)"

definition isEmpty :: "cyclogon \<Rightarrow> bool" where
  "isEmpty g = (length (g_points g) = 0)"

definition addPoint :: "cyclogon \<Rightarrow> sample \<Rightarrow> cyclogon" where
  "addPoint g p = g\<lparr>g_points := g_points g @ [p]\<rparr>"

definition getPoints :: "cyclogon \<Rightarrow> sample list" where
  "getPoints g = map (\<lambda>p. p) (g_points g)"

text \<open>\<open>getPoint\<close>: \<open>None\<close> is the \<open>null\<close> of the source; the index is an integer.\<close>

definition getPoint :: "cyclogon \<Rightarrow> int \<Rightarrow> sample option" where
  "getPoint g i =
     (if i < 0 \<or> i \<ge> int (length (g_points g)) then None
      else Some (g_points g ! nat i))"

definition getFirstPoint :: "cyclogon \<Rightarrow> sample option" where
  "getFirstPoint g = getPoint g 0"

definition getLastPoint :: "cyclogon \<Rightarrow> sample option" where
  "getLastPoint g = getPoint g (int (length (g_points g)) - 1)"

definition setMetadata :: "cyclogon \<Rightarrow> (string \<rightharpoonup> real) \<Rightarrow> cyclogon" where
  "setMetadata g m = g\<lparr>g_metadata := g_metadata g ++ m\<rparr>"

definition getMetadataValue :: "cyclogon \<Rightarrow> string \<Rightarrow> real option" where
  "getMetadataValue g k = g_metadata g k"

record bounding_box =
  minX :: real
  maxX :: real
  minY :: real
  maxY :: real
  width :: real
  height :: real
  bb_center :: vec2

text \<open>
  \<open>getBoundingBox\<close>: the four accumulators start at \<open>\<plusminus>Infinity\<close>, so after the first
  sample each of them holds that sample's coordinate; the loop then folds \<open>Math.min\<close> and
  \<open>Math.max\<close> over the samples.
\<close>

definition getBoundingBox :: "cyclogon \<Rightarrow> bounding_box option" where
  "getBoundingBox g =
     (case g_points g of
        [] \<Rightarrow> None
      | p # ps \<Rightarrow>
          (let mnX = fold (\<lambda>q m. min m (sx q)) (p # ps) (sx p);
               mxX = fold (\<lambda>q m. max m (sx q)) (p # ps) (sx p);
               mnY = fold (\<lambda>q m. min m (sy q)) (p # ps) (sy p);
               mxY = fold (\<lambda>q m. max m (sy q)) (p # ps) (sy p)
           in Some \<lparr>minX = mnX, maxX = mxX, minY = mnY, maxY = mxY,
                    width = mxX - mnX, height = mxY - mnY,
                    bb_center = \<lparr>vx = (mnX + mxX) / 2, vy = (mnY + mxY) / 2\<rparr>\<rparr>))"

definition translate :: "cyclogon \<Rightarrow> real \<Rightarrow> real \<Rightarrow> cyclogon" where
  "translate g dx dy = g\<lparr>g_points := map (\<lambda>p. p\<lparr>sx := sx p + dx, sy := sy p + dy\<rparr>) (g_points g)\<rparr>"

definition scale :: "cyclogon \<Rightarrow> real \<Rightarrow> cyclogon" where
  "scale g k = g\<lparr>g_points := map (\<lambda>p. p\<lparr>sx := sx p * k, sy := sy p * k\<rparr>) (g_points g)\<rparr>"

record norm_factors =
  offsetX :: real
  offsetY :: real
  nf_scale :: real

text \<open>
  \<open>normalize\<close> returns \<open>null\<close> on an empty curve and leaves it as it is (\<open>NormNull\<close>).
  Otherwise it divides every coordinate by \<open>scale = max(width, height)\<close>. When that is 0 the
  samples all coincide with \<open>(minX, minY)\<close>, each division is \<open>0 / 0\<close> and every stored
  coordinate becomes NaN: \<open>NormNaN\<close> carries the factors the call still returns.
  \<open>Normalized\<close> carries the curve after the call and the factors.
\<close>

datatype norm_result =
    NormNull
  | NormNaN norm_factors
  | Normalized cyclogon norm_factors

definition normalize :: "cyclogon \<Rightarrow> norm_result" where
  "normalize g =
     (case getBoundingBox g of
        None \<Rightarrow> NormNull
      | Some bbox \<Rightarrow>
          (let k = max (width bbox) (height bbox);
               factors = \<lparr>offsetX = minX bbox, offsetY = minY bbox, nf_scale = k\<rparr>
           in if k = 0 then NormNaN factors
              else Normalized
                     (g\<lparr>g_points := map (\<lambda>p. p\<lparr>sx := (sx p - minX bbox) / k,
                                                sy := (sy p - minY bbox) / k\<rparr>) (g_points g)\<rparr>)
                     factors))"

section \<open>CyclogonCalculator.js\<close>

text \<open>
  The options of the constructor are optional: \<open>None\<close> is a property that is not given.
  \<open>a || b\<close> takes \<open>b\<close> when \<open>a\<close> is \<open>undefined\<close> or 0.
\<close>

record calc_options =
  pointsPerSide :: real
  pointsPerRadian :: real
  precision :: real

definition js_or :: "real option \<Rightarrow> real \<Rightarrow> real" where
  "js_or a b = (case a of None \<Rightarrow> b | Some v \<Rightarrow> if v = 0 then b else v)"

definition new_CyclogonCalculator :: "real option \<Rightarrow> real option \<Rightarrow> real option \<Rightarrow> calc_options" where
  "new_CyclogonCalculator pps ppr prec =
     \<lparr>pointsPerSide = js_or pps POINTS_PER_SIDE,
      pointsPerRadian = js_or ppr POINTS_PER_RADIAN,
      precision = js_or prec DECIMAL_PRECISION\<rparr>"

text \<open>
  A result that may hold NaN: \<open>NotFinite\<close> stands for a curve one of whose samples was
  computed from \<open>0 / 0\<close>.
\<close>

datatype 'a maybe_nan = NotFinite | Finite 'a

subsection \<open>generateCycloid\<close>

definition cycloid_sample :: "real \<Rightarrow> real \<Rightarrow> real \<Rightarrow> real \<Rightarrow> int \<Rightarrow> int \<Rightarrow> sample" where
  "cycloid_sample R d alpha totalAngle numPoints i =
     (let theta = (of_int i / of_int numPoints) * totalAngle;
          centerX = R * theta;
          centerY = R;
          pointAngle = alpha - theta;
          x = centerX + d * cos pointAngle;
          y = centerY + d * sin pointAngle
      in \<lparr>sx = x, sy = y, extra = CycloidExtra theta \<lparr>vx = centerX, vy = centerY\<rparr>\<rparr>)"

function cycloid_loop :: "real \<Rightarrow> real \<Rightarrow> real \<Rightarrow> real \<Rightarrow> int \<Rightarrow> int \<Rightarrow> cyclogon \<Rightarrow> cyclogon" where
  "cycloid_loop R d alpha totalAngle numPoints i g =
     (if i \<le> numPoints
      then cycloid_loop R d alpha totalAngle numPoints (i + 1)
             (addPoint g (cycloid_sample R d alpha totalAngle numPoints i))
      else g)"
  by pat_completeness auto
termination
  by (relation "measure (\<lambda>(R, d, alpha, totalAngle, numPoints, i, g). nat (numPoints + 1 - i))") auto

declare cycloid_loop.simps [simp del]

text \<open>
  With \<open>numPoints = 0\<close> the loop runs once, for \<open>i = 0\<close>, and \<open>theta = (0 / 0) * totalAngle\<close>
  is NaN, as are the coordinates computed from it.
\<close>

definition generateCycloid :: "calc_options \<Rightarrow> circle \<Rightarrow> vec2 \<Rightarrow> real \<Rightarrow> cyclogon maybe_nan" where
  "generateCycloid opts circ drawPoint cycles =
     (let cyclogon = new_Cyclogon CYCLOID (Some (Circle circ));
          R = c_radius circ;
          d = sqrt ((vx drawPoint)\<^sup>2 + (vy drawPoint)\<^sup>2);
          alpha = js_atan2 (vy drawPoint) (vx drawPoint);
          totalAngle = cycles * TWO_PI;
          numPoints = \<lceil>totalAngle * pointsPerRadian opts\<rceil>
      in if numPoints = 0 then NotFinite
         else Finite (setMetadata (cycloid_loop R d alpha totalAngle numPoints 0 cyclogon)
                        [''cycles'' \<mapsto> cycles,
                         ''totalDistance'' \<mapsto> R * totalAngle,
                         ''drawPointDistance'' \<mapsto> d,
                         ''drawPointAngle'' \<mapsto> alpha]))"

subsection \<open>generateCyclogon\<close>

text \<open>
  \<open>_findBottomSideIndex\<close>: \<open>maxDot\<close> starts at \<open>-Infinity\<close> (\<open>None\<close>), which every dot
  product exceeds.
\<close>

definition findBottomSideIndex :: "polygon \<Rightarrow> nat" where
  "findBottomSideIndex pg =
     fst (fold (\<lambda>i (bestIndex, maxDot).
                  let normal = getNormal (getEdge pg (int i));
                      dot = - vy normal
                  in if (case maxDot of None \<Rightarrow> True | Some m \<Rightarrow> dot > m)
                     then (i, Some dot) else (bestIndex, maxDot))
               [0..<p_sides pg] (0, None))"

definition getEdgeNormalAngle :: "polygon \<Rightarrow> nat \<Rightarrow> real" where
  "getEdgeNormalAngle pg edgeIndex =
     (let normal = getNormal (getEdge pg (int edgeIndex)) in js_atan2 (vy normal) (vx normal))"

definition getDistancePivotToCenter :: "polygon \<Rightarrow> int \<Rightarrow> real" where
  "getDistancePivotToCenter pg sideIndex = p_radius pg"

definition getCenterAngleFromPivot :: "polygon \<Rightarrow> int \<Rightarrow> real" where
  "getCenterAngleFromPivot pg sideIndex =
     (let interiorAngle = getInteriorAngle pg;
          baseAngle = HALF_PI + (pi - interiorAngle) / 2
      in baseAngle)"

definition rotatePoint :: "vec2 \<Rightarrow> vec2 \<Rightarrow> real \<Rightarrow> vec2" where
  "rotatePoint point pivot angle =
     (let c = cos angle; s = sin angle;
          dx = vx point - vx pivot;
          dy = vy point - vy pivot
      in \<lparr>vx = vx pivot + dx * c - dy * s, vy = vy pivot + dx * s + dy * c\<rparr>)"

text \<open>The body of the inner loop: the sample added for step \<open>p\<close> of side \<open>sideIndex\<close>.\<close>

definition cyclogon_sample ::
  "calc_options \<Rightarrow> polygon \<Rightarrow> vec2 \<Rightarrow> real \<Rightarrow> real \<Rightarrow> real \<Rightarrow> int \<Rightarrow> int \<Rightarrow> sample" where
  "cyclogon_sample opts pg adjustedDrawPoint exteriorAngle polygonRotation pivotX sideIndex p =
     (let pivot = \<lparr>vx = pivotX, vy = 0\<rparr>;
          t = of_int p / pointsPerSide opts;
          localRotation = t * exteriorAngle;
          currentTotalRotation = polygonRotation + localRotation;
          centerDistance = getDistancePivotToCenter pg sideIndex;
          centerAngleFromPivot = getCenterAngleFromPivot pg sideIndex;
          rotatedCenterAngle = centerAngleFromPivot - localRotation;
          centerX = vx pivot + centerDistance * cos rotatedCenterAngle;
          centerY = vy pivot + centerDistance * sin rotatedCenterAngle;
          rotatedDrawPointAngle =
            js_atan2 (vy adjustedDrawPoint) (vx adjustedDrawPoint) - currentTotalRotation;
          drawPointDist = sqrt ((vx adjustedDrawPoint)\<^sup>2 + (vy adjustedDrawPoint)\<^sup>2);
          x = centerX + drawPointDist * cos rotatedDrawPointAngle;
          y = centerY + drawPointDist * sin rotatedDrawPointAngle
      in \<lparr>sx = x, sy = y,
          extra = CyclogonExtra sideIndex currentTotalRotation pivot \<lparr>vx = centerX, vy = centerY\<rparr>\<rparr>)"

function arc_loop ::
  "calc_options \<Rightarrow> polygon \<Rightarrow> vec2 \<Rightarrow> real \<Rightarrow> real \<Rightarrow> real \<Rightarrow> int \<Rightarrow> int \<Rightarrow> int \<Rightarrow> int
     \<Rightarrow> cyclogon \<Rightarrow> cyclogon" where
  "arc_loop opts pg adj exteriorAngle polygonRotation pivotX sideIndex totalSides pointsThisSide p g =
     (if p \<le> pointsThisSide
      then arc_loop opts pg adj exteriorAngle polygonRotation pivotX sideIndex totalSides
             pointsThisSide (p + 1)
             (if p = pointsThisSide \<and> sideIndex < totalSides - 1 then g
              else addPoint g
                     (cyclogon_sample opts pg adj exteriorAngle polygonRotation pivotX sideIndex p))
      else g)"
  by pat_completeness auto
termination
  by (relation "measure (\<lambda>(opts, pg, adj, ea, rot, px, si, ts, pts, p, g). nat (pts + 1 - p))") auto

declare arc_loop.simps [simp del]

definition pointsForSide :: "calc_options \<Rightarrow> real \<Rightarrow> nat \<Rightarrow> int \<Rightarrow> int \<Rightarrow> int" where
  "pointsForSide opts cycles n totalSides sideIndex =
     (let isLastSide = (sideIndex = totalSides - 1);
          fractionOfLastSide =
            (if isLastSide \<and> js_mod1 (cycles * real n) \<noteq> 0 then js_mod1 (cycles * real n) else 1)
      in \<lceil>pointsPerSide opts * fractionOfLastSide\<rceil>)"

function side_loop ::
  "calc_options \<Rightarrow> polygon \<Rightarrow> vec2 \<Rightarrow> real \<Rightarrow> real \<Rightarrow> real \<Rightarrow> int \<Rightarrow> int
     \<Rightarrow> real \<times> real \<times> cyclogon \<Rightarrow> real \<times> real \<times> cyclogon" where
  "side_loop opts pg adj cycles sideLength exteriorAngle totalSides sideIndex (pivotX, polygonRotation, g) =
     (if sideIndex < totalSides
      then side_loop opts pg adj cycles sideLength exteriorAngle totalSides (sideIndex + 1)
             (pivotX + sideLength, polygonRotation + exteriorAngle,
              arc_loop opts pg adj exteriorAngle polygonRotation pivotX sideIndex totalSides
                (pointsForSide opts cycles (p_sides pg) totalSides sideIndex) 0 g)
      else (pivotX, polygonRotation, g))"
  by pat_completeness auto
termination
  by (relation "measure (\<lambda>(opts, pg, adj, cy, sl, ea, ts, si, st). nat (ts - si))") auto

declare side_loop.simps [simp del]

definition generateCyclogon :: "calc_options \<Rightarrow> polygon \<Rightarrow> vec2 \<Rightarrow> real \<Rightarrow> cyclogon" where
  "generateCyclogon opts pg drawPoint cycles =
     (let cyclogon = new_Cyclogon CYCLOGON (Some (Polygon pg));
          n = p_sides pg;
          sideLength = getSideLength pg;
          exteriorAngle = getExteriorAngle pg;
          bottomSideIndex = findBottomSideIndex pg;
          currentNormalAngle = getEdgeNormalAngle pg bottomSideIndex;
          targetNormalAngle = - pi / 2;
          adjustmentRotation = targetNormalAngle - currentNormalAngle;
          adjustedDrawPoint = rotatePoint drawPoint origin adjustmentRotation;
          totalSides = \<lceil>cycles * real n\<rceil>;
          (pivotX, polygonRotation, filled) =
            side_loop opts pg adjustedDrawPoint cycles sideLength exteriorAngle totalSides 0
              (sideLength, 0, cyclogon)
      in setMetadata filled
           [''cycles'' \<mapsto> cycles,
            ''sides'' \<mapsto> real n,
            ''totalDistance'' \<mapsto> of_int totalSides * sideLength,
            ''sideLength'' \<mapsto> sideLength,
            ''exteriorAngle'' \<mapsto> exteriorAngle,
            ''adjustmentRotation'' \<mapsto> adjustmentRotation])"

subsection \<open>generate\<close>

definition generate :: "calc_options \<Rightarrow> shape \<Rightarrow> vec2 \<Rightarrow> real \<Rightarrow> error + cyclogon maybe_nan" where
  "generate opts sh drawPoint cycles =
     (case sh of
        Circle c \<Rightarrow> Inr (generateCycloid opts c drawPoint cycles)
      | Polygon pg \<Rightarrow> Inr (Finite (generateCyclogon opts pg drawPoint cycles))
      | OtherShape \<Rightarrow> Inl UnsupportedShape)"

subsection \<open>simplify\<close>

definition perpendicularDistance :: "sample \<Rightarrow> sample \<Rightarrow> sample \<Rightarrow> real" where
  "perpendicularDistance point lineStart lineEnd =
     (let dx = sx lineEnd - sx lineStart;
          dy = sy lineEnd - sy lineStart;
          lengthSquared = dx * dx + dy * dy
      in if lengthSquared = 0
         then sqrt ((sx point - sx lineStart)\<^sup>2 + (sy point - sy lineStart)\<^sup>2)
         else
           (let t = max 0 (min 1 (((sx point - sx lineStart) * dx + (sy point - sy lineStart) * dy)
                                   / lengthSquared));
                projX = sx lineStart + t * dx;
                projY = sy lineStart + t * dy
            in sqrt ((sx point - projX)\<^sup>2 + (sy point - projY)\<^sup>2)))"

text \<open>
  The search loop of \<open>_douglasPeucker\<close> over the inner indices \<open>1 \<le> i < length - 1\<close>; the state
  is \<open>(maxDistance, maxIndex)\<close>, started at \<open>(0, 0)\<close>.
\<close>

definition farthest_step :: "sample list \<Rightarrow> nat \<Rightarrow> real \<times> nat \<Rightarrow> real \<times> nat" where
  "farthest_step points i st =
     (let distance = perpendicularDistance (points ! i) (points ! 0) (points ! (length points - 1))
      in if distance > fst st then (distance, i) else st)"

definition farthest :: "sample list \<Rightarrow> real \<times> nat" where
  "farthest points = fold (farthest_step points) [1..<length points - 1] (0, 0)"

lemma farthest_fold_index:
  "snd st < n \<Longrightarrow> 0 < n \<Longrightarrow> set is \<subseteq> {..<n} \<Longrightarrow> snd (fold (farthest_step points) is st) < n"
  by (induction "is" arbitrary: st) (auto simp: farthest_step_def Let_def)

lemma farthest_index_less: "3 \<le> length points \<Longrightarrow> snd (farthest points) < length points - 1"
  unfolding farthest_def by (rule farthest_fold_index) auto

text \<open>
  \<open>_douglasPeucker\<close>. When the farthest distance exceeds the tolerance while \<open>maxIndex\<close> is
  still 0 (possible only for a negative tolerance), the right-hand recursive call receives
  \<open>points.slice(0)\<close>, the same array again: the recursion never ends and JavaScript throws
  \<open>RangeError\<close>.
\<close>

function douglasPeucker :: "sample list \<Rightarrow> real \<Rightarrow> error + sample list" where
  "douglasPeucker points tolerance =
     (if length points < 3 then Inr points
      else if fst (farthest points) > tolerance
      then (if snd (farthest points) = 0 then Inl RangeError
            else (case douglasPeucker (take (snd (farthest points) + 1) points) tolerance of
                    Inl e \<Rightarrow> Inl e
                  | Inr left \<Rightarrow>
                      (case douglasPeucker (drop (snd (farthest points)) points) tolerance of
                         Inl e \<Rightarrow> Inl e
                       | Inr right \<Rightarrow> Inr (butlast left @ right))))
      else Inr [points ! 0, points ! (length points - 1)])"
  by pat_completeness auto
termination
proof (relation "measure (\<lambda>(points, tolerance). length points)")
  show "wf (measure (\<lambda>(points, tolerance). length points))"
    by simp
next
  fix points :: "sample list" and tolerance :: real
  assume "\<not> length points < 3"
  then have "snd (farthest points) < length points - 1"
    using farthest_index_less [of points] by simp
  then show "((take (snd (farthest points) + 1) points, tolerance), points, tolerance)
             \<in> measure (\<lambda>(points, tolerance). length points)"
    by simp
next
  fix points :: "sample list" and tolerance :: real
  assume "\<not> length points < 3" and "snd (farthest points) \<noteq> 0"
  then show "((drop (snd (farthest points)) points, tolerance), points, tolerance)
             \<in> measure (\<lambda>(points, tolerance). length points)"
    by simp
qed

declare douglasPeucker.simps [simp del]

definition simplify :: "cyclogon \<Rightarrow> real \<Rightarrow> error + sample list" where
  "simplify g tolerance =
     (let points = getPoints g
      in if length points < 3 then Inr points else douglasPeucker points tolerance)"

section \<open>DrawPoint.js\<close>

datatype DrawPointState = IDLE | HOVERED | DRAGGING | SNAPPED | SNAP_DRAGGING

record trail_point =
  tp_x :: real
  tp_y :: real
  tp_alpha :: real

text \<open>
  The mutable fields of a draw point. The visual constants (radius, colours, scales) never
  change after construction and are left out; \<open>None\<close> is \<open>null\<close>.
\<close>

record drawpoint =
  dp_position :: vec2
  dp_targetPosition :: vec2
  isSnappedToEdge :: bool
  snappedEdgeIndex :: "int option"
  edgeParameter :: real
  snappedAngle :: "real option"
  isHovered :: bool
  isDragging :: bool
  visualState :: DrawPointState
  animationProgress :: real
  pulsePhase :: real
  snapIndicatorVisible :: bool
  trailPoints :: "trail_point list"
  maxTrailPoints :: nat

definition new_DrawPoint :: "real \<Rightarrow> real \<Rightarrow> drawpoint" where
  "new_DrawPoint a b =
     \<lparr>dp_position = \<lparr>vx = a, vy = b\<rparr>,
      dp_targetPosition = \<lparr>vx = a, vy = b\<rparr>,
      isSnappedToEdge = False,
      snappedEdgeIndex = None,
      edgeParameter = 0,
      snappedAngle = None,
      isHovered = False,
      isDragging = False,
      visualState = IDLE,
      animationProgress = 1,
      pulsePhase = 0,
      snapIndicatorVisible = False,
      trailPoints = [],
      maxTrailPoints = 10\<rparr>"

definition updateVisualState :: "drawpoint \<Rightarrow> drawpoint" where
  "updateVisualState d =
     (d\<lparr>visualState :=
          (if isDragging d \<and> isSnappedToEdge d then SNAP_DRAGGING
           else if isDragging d then DRAGGING
           else if isSnappedToEdge d \<and> \<not> isHovered d then SNAPPED
           else if isHovered d then HOVERED
           else IDLE)\<rparr>)\<lparr>animationProgress := 0\<rparr>"

definition set_isHovered :: "drawpoint \<Rightarrow> bool \<Rightarrow> drawpoint" where
  "set_isHovered d v = updateVisualState (d\<lparr>isHovered := v\<rparr>)"

definition set_isDragging :: "drawpoint \<Rightarrow> bool \<Rightarrow> drawpoint" where
  "set_isDragging d v =
     (let d1 = updateVisualState (d\<lparr>isDragging := v\<rparr>)
      in if \<not> v then d1\<lparr>trailPoints := []\<rparr> else d1)"

definition set_snapIndicatorVisible :: "drawpoint \<Rightarrow> bool \<Rightarrow> drawpoint" where
  "set_snapIndicatorVisible d v = d\<lparr>snapIndicatorVisible := v\<rparr>"

definition updateAnimation :: "drawpoint \<Rightarrow> real \<Rightarrow> drawpoint" where
  "updateAnimation d deltaTime =
     (let d1 = (if animationProgress d < 1
                then d\<lparr>animationProgress := min 1 (animationProgress d + deltaTime * 5)\<rparr>
                else d);
          d2 = d1\<lparr>pulsePhase := pulsePhase d1 + deltaTime * 3\<rparr>;
          d3 = (if pulsePhase d2 > pi * 2 then d2\<lparr>pulsePhase := pulsePhase d2 - pi * 2\<rparr> else d2);
          lerpFactor = min 1 (deltaTime * 15)
      in d3\<lparr>dp_position :=
              \<lparr>vx = vx (dp_position d3) + (vx (dp_targetPosition d3) - vx (dp_position d3)) * lerpFactor,
               vy = vy (dp_position d3) + (vy (dp_targetPosition d3) - vy (dp_position d3)) * lerpFactor\<rparr>\<rparr>)"

definition addTrailPoint :: "drawpoint \<Rightarrow> drawpoint" where
  "addTrailPoint d =
     (if isDragging d
      then (let pushed = trailPoints d @
                  [\<lparr>tp_x = vx (dp_position d), tp_y = vy (dp_position d), tp_alpha = 1\<rparr>]
            in d\<lparr>trailPoints := (if length pushed > maxTrailPoints d then tl pushed else pushed)\<rparr>)
      else d)"

text \<open>
  \<open>updateTrail\<close> walks the trail from its end, fades every point and splices out those whose
  alpha is no longer positive: the points left are the faded ones with a positive alpha, in
  their order.
\<close>

definition updateTrail :: "drawpoint \<Rightarrow> real \<Rightarrow> drawpoint" where
  "updateTrail d deltaTime =
     d\<lparr>trailPoints :=
         filter (\<lambda>q. \<not> tp_alpha q \<le> 0)
           (map (\<lambda>q. q\<lparr>tp_alpha := tp_alpha q - deltaTime * 3\<rparr>) (trailPoints d))\<rparr>"

definition clearSnap :: "drawpoint \<Rightarrow> drawpoint" where
  "clearSnap d =
     d\<lparr>isSnappedToEdge := False, snappedEdgeIndex := None, edgeParameter := 0,
       snappedAngle := None\<rparr>"

definition setPosition :: "drawpoint \<Rightarrow> real \<Rightarrow> real \<Rightarrow> bool \<Rightarrow> drawpoint" where
  "setPosition d a b immediate =
     (let d1 = d\<lparr>dp_targetPosition := \<lparr>vx = a, vy = b\<rparr>\<rparr>;
          d2 = (if immediate then d1\<lparr>dp_position := \<lparr>vx = a, vy = b\<rparr>\<rparr> else d1);
          d3 = (if isDragging d2 then addTrailPoint d2 else d2)
      in clearSnap d3)"

definition moveBy :: "drawpoint \<Rightarrow> real \<Rightarrow> real \<Rightarrow> bool \<Rightarrow> drawpoint" where
  "moveBy d dx dy immediate =
     (let d1 = d\<lparr>dp_targetPosition :=
                  \<lparr>vx = vx (dp_targetPosition d) + dx, vy = vy (dp_targetPosition d) + dy\<rparr>\<rparr>;
          d2 = (if immediate then d1\<lparr>dp_position := dp_targetPosition d1\<rparr> else d1);
          d3 = (if isDragging d2 then addTrailPoint d2 else d2)
      in clearSnap d3)"

definition snapToPolygonEdge :: "drawpoint \<Rightarrow> polygon \<Rightarrow> int \<Rightarrow> real \<Rightarrow> drawpoint" where
  "snapToPolygonEdge d pg edgeIndex t =
     (let e = getEdge pg edgeIndex;
          point = getPointAt e t
      in d\<lparr>dp_position := point, isSnappedToEdge := True, snappedEdgeIndex := Some edgeIndex,
           edgeParameter := t, snappedAngle := None\<rparr>)"

definition snapToCircleBorder :: "drawpoint \<Rightarrow> circle \<Rightarrow> real \<Rightarrow> drawpoint" where
  "snapToCircleBorder d c angle =
     (let point = getPointOnCircle c angle
      in d\<lparr>dp_position := point, isSnappedToEdge := True, snappedEdgeIndex := None,
           edgeParameter := 0, snappedAngle := Some angle\<rparr>)"

text \<open>
  The automatic snaps return the snap information with the new state. \<open>findClosestEdge\<close>
  returns \<open>null\<close> for a polygon without edges, and reading \<open>result.closestPoint\<close> then throws.
\<close>

definition snapToNearestPolygonEdge :: "drawpoint \<Rightarrow> polygon \<Rightarrow> error + drawpoint \<times> closest_edge" where
  "snapToNearestPolygonEdge d pg =
     (case findClosestEdge pg (dp_position d) of
        None \<Rightarrow> Inl TypeError
      | Some result \<Rightarrow>
          Inr (d\<lparr>dp_position := ce_closestPoint result, isSnappedToEdge := True,
                 snappedEdgeIndex := Some (int (ce_edgeIndex result)),
                 edgeParameter := ce_t result, snappedAngle := None\<rparr>, result))"

definition snapToCircle :: "drawpoint \<Rightarrow> circle \<Rightarrow> drawpoint \<times> vec2 \<times> real" where
  "snapToCircle d c =
     (let projected = projectToBorder c (dp_position d)
      in (d\<lparr>dp_position := fst projected, isSnappedToEdge := True, snappedEdgeIndex := None,
            edgeParameter := 0, snappedAngle := Some (snd projected)\<rparr>, projected))"

definition snapToShape :: "drawpoint \<Rightarrow> shape \<Rightarrow> error + drawpoint" where
  "snapToShape d sh =
     (case sh of
        Polygon pg \<Rightarrow> map_sum id fst (snapToNearestPolygonEdge d pg)
      | Circle c \<Rightarrow> Inr (fst (snapToCircle d c))
      | OtherShape \<Rightarrow> Inl UnsupportedSnapShape)"

definition resetToCircleTop :: "drawpoint \<Rightarrow> circle \<Rightarrow> drawpoint" where
  "resetToCircleTop d c =
     (let topPoint = getTopPoint c
      in d\<lparr>dp_position := topPoint, isSnappedToEdge := True, snappedAngle := Some (pi / 2),
           snappedEdgeIndex := None, edgeParameter := 0\<rparr>)"

text \<open>
  \<open>resetToPolygonTop\<close>: a polygon without vertices, which the constructor never builds, has
  no top vertex; the model reports that case as \<open>TypeError\<close>.
\<close>

definition resetToPolygonTop :: "drawpoint \<Rightarrow> polygon \<Rightarrow> error + drawpoint" where
  "resetToPolygonTop d pg =
     (case getTopVertex pg of
        None \<Rightarrow> Inl TypeError
      | Some topVertex \<Rightarrow>
          Inr (d\<lparr>dp_position := vertex_pos topVertex, isSnappedToEdge := True,
                 snappedEdgeIndex := Some (int (v_index topVertex)), edgeParameter := 0,
                 snappedAngle := None\<rparr>))"

definition resetToShapeTop :: "drawpoint \<Rightarrow> shape \<Rightarrow> error + drawpoint" where
  "resetToShapeTop d sh =
     (case sh of
        Polygon pg \<Rightarrow> resetToPolygonTop d pg
      | Circle c \<Rightarrow> Inr (resetToCircleTop d c)
      | OtherShape \<Rightarrow> Inl UnsupportedResetShape)"

text \<open>The state machine of a draw point: every method that changes it, as an operation.\<close>

datatype dp_op =
    SetHovered bool
  | SetDragging bool
  | SetSnapIndicatorVisible bool
  | UpdateAnimation real
  | UpdateTrail real
  | SetPosition real real bool
  | MoveBy real real bool
  | SnapToPolygonEdge polygon int real
  | SnapToCircleBorder circle real
  | SnapToNearestPolygonEdge polygon
  | SnapToCircle circle
  | SnapToShape shape
  | ResetToCircleTop circle
  | ResetToPolygonTop polygon
  | ResetToShapeTop shape

fun is_snap_op :: "dp_op \<Rightarrow> bool" where
  "is_snap_op (SnapToPolygonEdge pg i t) = True"
| "is_snap_op (SnapToCircleBorder c a) = True"
| "is_snap_op (SnapToNearestPolygonEdge pg) = True"
| "is_snap_op (SnapToCircle c) = True"
| "is_snap_op (SnapToShape sh) = True"
| "is_snap_op (ResetToCircleTop c) = True"
| "is_snap_op (ResetToPolygonTop pg) = True"
| "is_snap_op (ResetToShapeTop sh) = True"
| "is_snap_op _ = False"

fun dp_step :: "dp_op \<Rightarrow> drawpoint \<Rightarrow> error + drawpoint" where
  "dp_step (SetHovered v) d = Inr (set_isHovered d v)"
| "dp_step (SetDragging v) d = Inr (set_isDragging d v)"
| "dp_step (SetSnapIndicatorVisible v) d = Inr (set_snapIndicatorVisible d v)"
| "dp_step (UpdateAnimation dt) d = Inr (updateAnimation d dt)"
| "dp_step (UpdateTrail dt) d = Inr (updateTrail d dt)"
| "dp_step (SetPosition a b im) d = Inr (setPosition d a b im)"
| "dp_step (MoveBy dx dy im) d = Inr (moveBy d dx dy im)"
| "dp_step (SnapToPolygonEdge pg i t) d = Inr (snapToPolygonEdge d pg i t)"
| "dp_step (SnapToCircleBorder c a) d = Inr (snapToCircleBorder d c a)"
| "dp_step (SnapToNearestPolygonEdge pg) d = map_sum id fst (snapToNearestPolygonEdge d pg)"
| "dp_step (SnapToCircle c) d = Inr (fst (snapToCircle d c))"
| "dp_step (SnapToShape sh) d = snapToShape d sh"
| "dp_step (ResetToCircleTop c) d = Inr (resetToCircleTop d c)"
| "dp_step (ResetToPolygonTop pg) d = resetToPolygonTop d pg"
| "dp_step (ResetToShapeTop sh) d = resetToShapeTop d sh"

section \<open>Reading a curve by index\<close>

text \<open>
  C10. For every curve and every index outside \<open>[0, pointCount)\<close>, \<open>getPoint\<close> returns
  \<open>null\<close>; hence \<open>getFirstPoint\<close> and \<open>getLastPoint\<close> return \<open>null\<close> on an empty curve.
\<close>

theorem getPoint_outside_null:
  "(i < 0 \<or> int (pointCount g) \<le> i \<longrightarrow> getPoint g i = None) \<and>
   (isEmpty g \<longrightarrow> getFirstPoint g = None \<and> getLastPoint g = None)"
  by (simp add: getPoint_def getFirstPoint_def getLastPoint_def pointCount_def isEmpty_def)

theorem getPoint_outside_null_witness:
  "getPoint (addPoint (new_Cyclogon CYCLOID None) \<lparr>sx = 1, sy = 2, extra = NoExtra\<rparr>) 1 = None \<and>
   getPoint (addPoint (new_Cyclogon CYCLOID None) \<lparr>sx = 1, sy = 2, extra = NoExtra\<rparr>) (- 1) = None \<and>
   isEmpty (new_Cyclogon CYCLOID None) \<and>
   getFirstPoint (new_Cyclogon CYCLOID None) = None \<and>
   getLastPoint (new_Cyclogon CYCLOID None) = None"
  using getPoint_outside_null [of 1 "addPoint (new_Cyclogon CYCLOID None) \<lparr>sx = 1, sy = 2, extra = NoExtra\<rparr>"]
    getPoint_outside_null [of "- 1" "addPoint (new_Cyclogon CYCLOID None) \<lparr>sx = 1, sy = 2, extra = NoExtra\<rparr>"]
    getPoint_outside_null [of 0 "new_Cyclogon CYCLOID None"]
  by (simp add: pointCount_def isEmpty_def addPoint_def new_Cyclogon_def)

section \<open>The snap state of a draw point\<close>

lemma clearSnap_free:
  "\<not> isSnappedToEdge (clearSnap d) \<and> snappedEdgeIndex (clearSnap d) = None \<and>
   snappedAngle (clearSnap d) = None \<and> edgeParameter (clearSnap d) = 0"
  by (simp add: clearSnap_def)

lemma non_snap_op_keeps_free:
  "dp_step op d = Inr d' \<Longrightarrow> \<not> is_snap_op op \<Longrightarrow> \<not> isSnappedToEdge d \<Longrightarrow> \<not> isSnappedToEdge d'"
  by (cases op)
     (auto simp: set_isHovered_def set_isDragging_def set_snapIndicatorVisible_def
        updateAnimation_def updateTrail_def updateVisualState_def setPosition_def moveBy_def
        clearSnap_def Let_def split: if_splits)

text \<open>
  C9. Whatever the snap state of a draw point, \<open>setPosition\<close> and \<open>moveBy\<close> leave it free:
  \<open>isSnappedToEdge\<close> is false, \<open>snappedEdgeIndex\<close> and \<open>snappedAngle\<close> are \<open>null\<close> and
  \<open>edgeParameter\<close> is 0. A free point becomes snapped only by one of the snap operations.
\<close>

theorem position_write_clears_snap:
  "(\<not> isSnappedToEdge (setPosition d a b im) \<and> snappedEdgeIndex (setPosition d a b im) = None \<and>
    snappedAngle (setPosition d a b im) = None \<and> edgeParameter (setPosition d a b im) = 0) \<and>
   (\<not> isSnappedToEdge (moveBy d dx dy im) \<and> snappedEdgeIndex (moveBy d dx dy im) = None \<and>
    snappedAngle (moveBy d dx dy im) = None \<and> edgeParameter (moveBy d dx dy im) = 0) \<and>
   (\<forall>op d'. dp_step op d = Inr d' \<and> \<not> isSnappedToEdge d \<and> isSnappedToEdge d' \<longrightarrow> is_snap_op op)"
proof (intro conjI allI impI)
  fix op d'
  assume "dp_step op d = Inr d' \<and> \<not> isSnappedToEdge d \<and> isSnappedToEdge d'"
  then show "is_snap_op op"
    using non_snap_op_keeps_free [of op d d'] by blast
qed (simp_all add: setPosition_def moveBy_def Let_def clearSnap_free)

theorem position_write_clears_snap_witness:
  "isSnappedToEdge (resetToCircleTop (new_DrawPoint 0 0) \<lparr>c_radius = 1, c_center = origin\<rparr>) \<and>
   \<not> isSnappedToEdge
       (setPosition (resetToCircleTop (new_DrawPoint 0 0) \<lparr>c_radius = 1, c_center = origin\<rparr>) 1 2 True) \<and>
   \<not> isSnappedToEdge
       (moveBy (resetToCircleTop (new_DrawPoint 0 0) \<lparr>c_radius = 1, c_center = origin\<rparr>) 1 2 True) \<and>
   dp_step (SnapToCircleBorder \<lparr>c_radius = 1, c_center = origin\<rparr> 0) (new_DrawPoint 0 0)
     = Inr (snapToCircleBorder (new_DrawPoint 0 0) \<lparr>c_radius = 1, c_center = origin\<rparr> 0) \<and>
   \<not> isSnappedToEdge (new_DrawPoint 0 0) \<and>
   isSnappedToEdge (snapToCircleBorder (new_DrawPoint 0 0) \<lparr>c_radius = 1, c_center = origin\<rparr> 0) \<and>
   is_snap_op (SnapToCircleBorder \<lparr>c_radius = 1, c_center = origin\<rparr> 0)"
  using position_write_clears_snap
          [of "resetToCircleTop (new_DrawPoint 0 0) \<lparr>c_radius = 1, c_center = origin\<rparr>" 1 2 True 1 2]
        position_write_clears_snap [of "new_DrawPoint 0 0" 1 2 True 1 2]
  by (simp add: resetToCircleTop_def snapToCircleBorder_def new_DrawPoint_def Let_def)

section \<open>The cycloid\<close>

lemma cycloid_loop_points:
  "g_points (cycloid_loop R d alpha totalAngle numPoints i g) =
     g_points g @ map (cycloid_sample R d alpha totalAngle numPoints) [i..numPoints]"
proof (induction R d alpha totalAngle numPoints i g rule: cycloid_loop.induct)
  case (1 R d alpha totalAngle numPoints i g)
  show ?case
  proof (cases "i \<le> numPoints")
    case True
    then show ?thesis
      using "1.IH" [OF True]
      by (subst cycloid_loop.simps) (simp add: addPoint_def upto_rec1 [of i numPoints])
  next
    case False
    then show ?thesis
      by (subst cycloid_loop.simps) simp
  qed
qed

text \<open>The value \<open>numPoints\<close> of \<open>generateCycloid\<close>.\<close>

definition cycloid_numPoints :: "calc_options \<Rightarrow> real \<Rightarrow> int" where
  "cycloid_numPoints opts cycles = \<lceil>cycles * TWO_PI * pointsPerRadian opts\<rceil>"

lemma generateCycloid_points:
  assumes "cycloid_numPoints opts cycles \<noteq> 0"
  shows "\<exists>g. generateCycloid opts circ p cycles = Finite g \<and>
           g_points g =
             map (cycloid_sample (c_radius circ) (sqrt ((vx p)\<^sup>2 + (vy p)\<^sup>2)) (js_atan2 (vy p) (vx p))
                    (cycles * TWO_PI) (cycloid_numPoints opts cycles))
               [0..cycloid_numPoints opts cycles]"
  using assms
  by (simp add: generateCycloid_def Let_def cycloid_numPoints_def setMetadata_def
      cycloid_loop_points new_Cyclogon_def)

lemma numPoints_pos:
  assumes "0 < cycles" "0 < pointsPerRadian opts"
  shows "1 \<le> cycloid_numPoints opts cycles"
proof -
  have "0 < cycles * TWO_PI * pointsPerRadian opts"
    using assms by (simp add: TWO_PI_def)
  then show ?thesis
    unfolding cycloid_numPoints_def by linarith
qed

lemma js_atan2_top: "js_atan2 1 0 = pi / 2"
  by (simp add: js_atan2_def)

text \<open>
  C1. For every circle of radius \<open>R > 0\<close>, every trace point \<open>p\<close> and every cycle count
  \<open>c > 0\<close>, each sample of \<open>generateCycloid\<close> satisfies \<open>x = R \<theta> + d cos (\<alpha> - \<theta>)\<close> and
  \<open>y = R + d sin (\<alpha> - \<theta>)\<close>, where \<open>d = |p|\<close>, \<open>\<alpha> = atan2 (p.y, p.x)\<close> and \<open>\<theta>\<close> is the angle
  the sample records. For \<open>R = 1\<close>, \<open>p = (0, 1)\<close>, \<open>c = 1\<close> the first sample has \<open>\<theta> = 0\<close> and is
  \<open>(0, 2)\<close>, and a sample at \<open>\<theta> = \<pi>\<close> is \<open>(\<pi>, 0)\<close>. The density of samples is any positive
  \<open>pointsPerRadian\<close>.
\<close>

theorem cycloid_closed_form:
  assumes "0 < pointsPerRadian opts"
  shows
   "(0 < c_radius circ \<and> 0 < cycles \<longrightarrow>
      (\<exists>g. generateCycloid opts circ p cycles = Finite g \<and> g_points g \<noteq> [] \<and>
         (\<forall>s \<in> set (g_points g). \<exists>theta.
            extra s = CycloidExtra theta \<lparr>vx = c_radius circ * theta, vy = c_radius circ\<rparr> \<and>
            sx s = c_radius circ * theta
                   + sqrt ((vx p)\<^sup>2 + (vy p)\<^sup>2) * cos (js_atan2 (vy p) (vx p) - theta) \<and>
            sy s = c_radius circ
                   + sqrt ((vx p)\<^sup>2 + (vy p)\<^sup>2) * sin (js_atan2 (vy p) (vx p) - theta)))) \<and>
    (\<exists>g. generateCycloid opts \<lparr>c_radius = 1, c_center = origin\<rparr> \<lparr>vx = 0, vy = 1\<rparr> 1 = Finite g \<and>
       g_points g \<noteq> [] \<and>
       sample_param (hd (g_points g)) = Some 0 \<and>
       sx (hd (g_points g)) = 0 \<and> sy (hd (g_points g)) = 2 \<and>
       (\<forall>s \<in> set (g_points g). sample_param s = Some pi \<longrightarrow> sx s = pi \<and> sy s = 0))"
proof (intro conjI impI)
  assume pos: "0 < c_radius circ \<and> 0 < cycles"
  then have n: "1 \<le> cycloid_numPoints opts cycles"
    using numPoints_pos assms by simp
  then obtain g where g: "generateCycloid opts circ p cycles = Finite g"
    and pts: "g_points g =
             map (cycloid_sample (c_radius circ) (sqrt ((vx p)\<^sup>2 + (vy p)\<^sup>2)) (js_atan2 (vy p) (vx p))
                    (cycles * TWO_PI) (cycloid_numPoints opts cycles))
               [0..cycloid_numPoints opts cycles]"
    using generateCycloid_points [of opts cycles circ p] by auto
  have "g_points g \<noteq> []"
    using n by (simp add: pts)
  moreover have "\<forall>s \<in> set (g_points g). \<exists>theta.
            extra s = CycloidExtra theta \<lparr>vx = c_radius circ * theta, vy = c_radius circ\<rparr> \<and>
            sx s = c_radius circ * theta
                   + sqrt ((vx p)\<^sup>2 + (vy p)\<^sup>2) * cos (js_atan2 (vy p) (vx p) - theta) \<and>
            sy s = c_radius circ
                   + sqrt ((vx p)\<^sup>2 + (vy p)\<^sup>2) * sin (js_atan2 (vy p) (vx p) - theta)"
    by (auto simp: pts cycloid_sample_def Let_def)
  ultimately show "\<exists>g. generateCycloid opts circ p cycles = Finite g \<and> g_points g \<noteq> [] \<and>
         (\<forall>s \<in> set (g_points g). \<exists>theta.
            extra s = CycloidExtra theta \<lparr>vx = c_radius circ * theta, vy = c_radius circ\<rparr> \<and>
            sx s = c_radius circ * theta
                   + sqrt ((vx p)\<^sup>2 + (vy p)\<^sup>2) * cos (js_atan2 (vy p) (vx p) - theta) \<and>
            sy s = c_radius circ
                   + sqrt ((vx p)\<^sup>2 + (vy p)\<^sup>2) * sin (js_atan2 (vy p) (vx p) - theta))"
    using g by blast
next
  have n: "1 \<le> cycloid_numPoints opts 1"
    using numPoints_pos assms by simp
  then obtain g where g: "generateCycloid opts \<lparr>c_radius = 1, c_center = origin\<rparr> \<lparr>vx = 0, vy = 1\<rparr> 1 = Finite g"
    and pts: "g_points g =
             map (cycloid_sample 1 1 (pi / 2) TWO_PI (cycloid_numPoints opts 1))
               [0..cycloid_numPoints opts 1]"
    using generateCycloid_points [of opts 1 "\<lparr>c_radius = 1, c_center = origin\<rparr>" "\<lparr>vx = 0, vy = 1\<rparr>"]
    by (auto simp: js_atan2_top)
  have ne: "g_points g \<noteq> []"
    using n by (simp add: pts)
  have hd: "hd (g_points g) = cycloid_sample 1 1 (pi / 2) TWO_PI (cycloid_numPoints opts 1) 0"
    using n by (simp add: pts upto_rec1 [of 0])
  have first: "sample_param (hd (g_points g)) = Some 0 \<and> sx (hd (g_points g)) = 0 \<and> sy (hd (g_points g)) = 2"
    by (simp add: hd cycloid_sample_def Let_def sample_param_def)
  have half: "\<forall>s \<in> set (g_points g). sample_param s = Some pi \<longrightarrow> sx s = pi \<and> sy s = 0"
    by (auto simp: pts cycloid_sample_def Let_def cos_diff sin_diff sample_param_def)
  show "\<exists>g. generateCycloid opts \<lparr>c_radius = 1, c_center = origin\<rparr> \<lparr>vx = 0, vy = 1\<rparr> 1 = Finite g \<and>
       g_points g \<noteq> [] \<and>
       sample_param (hd (g_points g)) = Some 0 \<and>
       sx (hd (g_points g)) = 0 \<and> sy (hd (g_points g)) = 2 \<and>
       (\<forall>s \<in> set (g_points g). sample_param s = Some pi \<longrightarrow> sx s = pi \<and> sy s = 0)"
    using g ne first half by blast
qed


theorem cycloid_closed_form_witness:
  "0 < pointsPerRadian (new_CyclogonCalculator None (Some (1 / pi)) None) \<and>
   0 < c_radius \<lparr>c_radius = 1, c_center = origin\<rparr> \<and> (0::real) < 1 \<and>
   (\<exists>g. generateCycloid (new_CyclogonCalculator None (Some (1 / pi)) None)
           \<lparr>c_radius = 1, c_center = origin\<rparr> \<lparr>vx = 0, vy = 1\<rparr> 1 = Finite g \<and>
        (\<exists>s \<in> set (g_points g). sample_param s = Some pi \<and> sx s = pi \<and> sy s = 0))"
proof -
  let ?opts = "new_CyclogonCalculator None (Some (1 / pi)) None"
  have ppr: "pointsPerRadian ?opts = 1 / pi"
    by (simp add: new_CyclogonCalculator_def js_or_def)
  have pos: "0 < pointsPerRadian ?opts"
    by (simp add: ppr)
  have n: "cycloid_numPoints ?opts 1 = 2"
    by (simp add: cycloid_numPoints_def ppr TWO_PI_def)
  obtain g where g: "generateCycloid ?opts \<lparr>c_radius = 1, c_center = origin\<rparr> \<lparr>vx = 0, vy = 1\<rparr> 1 = Finite g"
    and law: "\<forall>s \<in> set (g_points g). sample_param s = Some pi \<longrightarrow> sx s = pi \<and> sy s = 0"
    using cycloid_closed_form [OF pos, of "\<lparr>c_radius = 1, c_center = origin\<rparr>" 1 "\<lparr>vx = 0, vy = 1\<rparr>"]
    by blast
  have "g_points g = map (cycloid_sample 1 1 (pi / 2) TWO_PI 2) [0..2]"
    using generateCycloid_points [of ?opts 1 "\<lparr>c_radius = 1, c_center = origin\<rparr>" "\<lparr>vx = 0, vy = 1\<rparr>"] g
    by (simp add: n js_atan2_top)
  then have mem: "cycloid_sample 1 1 (pi / 2) TWO_PI 2 1 \<in> set (g_points g)"
    by simp
  have par: "sample_param (cycloid_sample 1 1 (pi / 2) TWO_PI 2 1) = Some pi"
    by (simp add: cycloid_sample_def Let_def TWO_PI_def sample_param_def)
  have "\<exists>s \<in> set (g_points g). sample_param s = Some pi \<and> sx s = pi \<and> sy s = 0"
    using mem par law by blast
  then show ?thesis
    using pos g by simp
qed

text \<open>
  C3 as stated: \<open>generateCycloid\<close> produces exactly \<open>ceil (totalAngle * pointsPerRadian)\<close>
  samples. It fails for the unit circle, one cycle and the default density: the loop runs
  for \<open>i = 0, ..., numPoints\<close>, both ends included.
\<close>

theorem cycloid_sample_count_counterexample:
  "map_maybe_nan pointCount
     (generateCycloid (new_CyclogonCalculator None None None) \<lparr>c_radius = 1, c_center = origin\<rparr>
        \<lparr>vx = 0, vy = 1\<rparr> 1)
   \<noteq> Finite (nat \<lceil>1 * TWO_PI * POINTS_PER_RADIAN\<rceil>)"
proof -
  let ?opts = "new_CyclogonCalculator None None None"
  have ppr: "pointsPerRadian ?opts = POINTS_PER_RADIAN"
    by (simp add: new_CyclogonCalculator_def js_or_def POINTS_PER_RADIAN_def)
  have n: "1 \<le> cycloid_numPoints ?opts 1"
    by (rule numPoints_pos) (simp_all add: ppr POINTS_PER_RADIAN_def)
  obtain g where g: "generateCycloid ?opts \<lparr>c_radius = 1, c_center = origin\<rparr> \<lparr>vx = 0, vy = 1\<rparr> 1 = Finite g"
    and len: "length (g_points g) = nat (cycloid_numPoints ?opts 1 + 1)"
    using generateCycloid_points [of ?opts 1 "\<lparr>c_radius = 1, c_center = origin\<rparr>" "\<lparr>vx = 0, vy = 1\<rparr>"] n
    by auto
  have "nat (cycloid_numPoints ?opts 1 + 1) \<noteq> nat (cycloid_numPoints ?opts 1)"
    using n by linarith
  then show ?thesis
    using g len by (simp add: pointCount_def cycloid_numPoints_def ppr)
qed

text \<open>
  C3, amended. For every circle, trace point and cycle count \<open>c > 0\<close>, \<open>generateCycloid\<close>
  produces exactly \<open>ceil (totalAngle * pointsPerRadian) + 1\<close> samples, where
  \<open>totalAngle = c * 2 \<pi>\<close>: one for each end of the \<open>ceil (totalAngle * pointsPerRadian)\<close>
  steps.
\<close>

theorem cycloid_sample_count:
  assumes "0 < cycles" and "0 < pointsPerRadian opts"
  shows "\<exists>g. generateCycloid opts circ p cycles = Finite g \<and>
           int (pointCount g) = \<lceil>cycles * TWO_PI * pointsPerRadian opts\<rceil> + 1"
proof -
  have n: "1 \<le> cycloid_numPoints opts cycles"
    using numPoints_pos assms by simp
  then obtain g where g: "generateCycloid opts circ p cycles = Finite g"
    and len: "length (g_points g) = nat (cycloid_numPoints opts cycles + 1)"
    using generateCycloid_points [of opts cycles circ p] by auto
  show ?thesis
    using g len n by (auto simp: pointCount_def cycloid_numPoints_def)
qed

theorem cycloid_sample_count_witness:
  "(0::real) < 1 \<and> 0 < pointsPerRadian (new_CyclogonCalculator None None None) \<and>
   (\<exists>g. generateCycloid (new_CyclogonCalculator None None None) \<lparr>c_radius = 1, c_center = origin\<rparr>
           \<lparr>vx = 0, vy = 1\<rparr> 1 = Finite g \<and>
        int (pointCount g) = \<lceil>1 * TWO_PI * 30\<rceil> + 1)"
proof -
  have pos: "0 < pointsPerRadian (new_CyclogonCalculator None None None)"
    by (simp add: new_CyclogonCalculator_def js_or_def POINTS_PER_RADIAN_def)
  have ppr: "pointsPerRadian (new_CyclogonCalculator None None None) = 30"
    by (simp add: new_CyclogonCalculator_def js_or_def POINTS_PER_RADIAN_def)
  show ?thesis
    using cycloid_sample_count [OF _ pos, of 1 "\<lparr>c_radius = 1, c_center = origin\<rparr>" "\<lparr>vx = 0, vy = 1\<rparr>"] pos
    by (simp add: ppr)
qed

section \<open>The cyclogon\<close>

lemma filter_skip_last:
  "filter (\<lambda>q. \<not> (q = pts \<and> c)) [p..pts] = (if c then [p..pts - 1] else [p..pts])"
proof (cases "p \<le> pts")
  case True
  then have "[p..pts] = [p..pts - 1] @ [pts]"
    by (simp add: upto_rec2)
  then show ?thesis
    by (auto simp: filter_id_conv)
next
  case False
  then show ?thesis by simp
qed

text \<open>The steps \<open>p\<close> of a side for which the inner loop adds a sample.\<close>

definition arc_steps :: "int \<Rightarrow> int \<Rightarrow> int \<Rightarrow> int list" where
  "arc_steps sideIndex totalSides pointsThisSide =
     (if sideIndex < totalSides - 1 then [0..pointsThisSide - 1] else [0..pointsThisSide])"

lemma arc_loop_points:
  "g_points (arc_loop opts pg adj ea rot px si ts pts p g) =
     g_points g @ map (cyclogon_sample opts pg adj ea rot px si)
                    (filter (\<lambda>q. \<not> (q = pts \<and> si < ts - 1)) [p..pts])"
proof (induction opts pg adj ea rot px si ts pts p g rule: arc_loop.induct)
  case (1 opts pg adj ea rot px si ts pts p g)
  show ?case
  proof (cases "p \<le> pts")
    case True
    then show ?thesis
      using "1.IH" [OF True]
      by (subst arc_loop.simps) (simp add: addPoint_def upto_rec1 [of p pts])
  next
    case False
    then show ?thesis
      by (subst arc_loop.simps) simp
  qed
qed

lemma arc_loop_from_zero:
  "g_points (arc_loop opts pg adj ea rot px si ts pts 0 g) =
     g_points g @ map (cyclogon_sample opts pg adj ea rot px si) (arc_steps si ts pts)"
  unfolding arc_loop_points filter_skip_last arc_steps_def by simp

text \<open>
  The samples of side \<open>k\<close>: when the outer loop reaches it, \<open>polygonRotation\<close> is \<open>k\<close> times the
  exterior angle and \<open>pivotX\<close> is \<open>sideLength + k * sideLength\<close>.
\<close>

definition side_samples ::
  "calc_options \<Rightarrow> polygon \<Rightarrow> vec2 \<Rightarrow> real \<Rightarrow> real \<Rightarrow> real \<Rightarrow> int \<Rightarrow> int \<Rightarrow> sample list" where
  "side_samples opts pg adj cycles sideLength exteriorAngle totalSides k =
     map (cyclogon_sample opts pg adj exteriorAngle (of_int k * exteriorAngle)
            (sideLength + of_int k * sideLength) k)
         (arc_steps k totalSides (pointsForSide opts cycles (p_sides pg) totalSides k))"

lemma side_loop_points:
  "px = L + of_int si * L \<Longrightarrow> rot = of_int si * ea \<Longrightarrow>
   g_points (snd (snd (side_loop opts pg adj cycles L ea ts si (px, rot, g)))) =
     g_points g @ concat (map (side_samples opts pg adj cycles L ea ts) [si..ts - 1])"
proof (induction opts pg adj cycles L ea ts si "(px, rot, g)" arbitrary: px rot g rule: side_loop.induct)
  case (1 opts pg adj cycles L ea ts si px rot g)
  show ?case
  proof (cases "si < ts")
    case True
    have "g_points (snd (snd (side_loop opts pg adj cycles L ea ts (si + 1)
              (px + L, rot + ea,
               arc_loop opts pg adj ea rot px si ts (pointsForSide opts cycles (p_sides pg) ts si) 0 g)))) =
          g_points (arc_loop opts pg adj ea rot px si ts (pointsForSide opts cycles (p_sides pg) ts si) 0 g)
          @ concat (map (side_samples opts pg adj cycles L ea ts) [si + 1..ts - 1])"
      using "1.prems" by (intro "1.hyps" [OF True]) (simp_all add: algebra_simps)
    then show ?thesis
      using True "1.prems"
      by (subst side_loop.simps)
         (simp add: arc_loop_from_zero upto_rec1 [of si "ts - 1"] side_samples_def)
  next
    case False
    then show ?thesis
      by (subst side_loop.simps) simp
  qed
qed

text \<open>The value \<open>adjustedDrawPoint\<close> of \<open>generateCyclogon\<close>.\<close>

definition adjustedDrawPoint :: "polygon \<Rightarrow> vec2 \<Rightarrow> vec2" where
  "adjustedDrawPoint pg drawPoint =
     rotatePoint drawPoint origin (- pi / 2 - getEdgeNormalAngle pg (findBottomSideIndex pg))"

lemma generateCyclogon_points:
  "g_points (generateCyclogon opts pg p cycles) =
     concat (map (side_samples opts pg (adjustedDrawPoint pg p) cycles (getSideLength pg)
                    (getExteriorAngle pg) \<lceil>cycles * real (p_sides pg)\<rceil>)
               [0..\<lceil>cycles * real (p_sides pg)\<rceil> - 1])"
  by (simp add: generateCyclogon_def Let_def case_prod_unfold setMetadata_def side_loop_points
      new_Cyclogon_def adjustedDrawPoint_def)

lemma generateCyclogon_totalDistance:
  "g_metadata (generateCyclogon opts pg p cycles) ''totalDistance'' =
     Some (of_int \<lceil>cycles * real (p_sides pg)\<rceil> * getSideLength pg)"
  by (simp add: generateCyclogon_def Let_def case_prod_unfold setMetadata_def)


lemma generateCyclogon_last:
  assumes "1 \<le> \<lceil>cycles * real (p_sides pg)\<rceil>"
    and "0 \<le> pointsForSide opts cycles (p_sides pg) \<lceil>cycles * real (p_sides pg)\<rceil>
               (\<lceil>cycles * real (p_sides pg)\<rceil> - 1)"
  shows "last (g_points (generateCyclogon opts pg p cycles)) =
           cyclogon_sample opts pg (adjustedDrawPoint pg p) (getExteriorAngle pg)
             (of_int (\<lceil>cycles * real (p_sides pg)\<rceil> - 1) * getExteriorAngle pg)
             (getSideLength pg + of_int (\<lceil>cycles * real (p_sides pg)\<rceil> - 1) * getSideLength pg)
             (\<lceil>cycles * real (p_sides pg)\<rceil> - 1)
             (pointsForSide opts cycles (p_sides pg) \<lceil>cycles * real (p_sides pg)\<rceil>
               (\<lceil>cycles * real (p_sides pg)\<rceil> - 1))"
proof -
  let ?ts = "\<lceil>cycles * real (p_sides pg)\<rceil>"
  let ?pts = "pointsForSide opts cycles (p_sides pg) ?ts (?ts - 1)"
  have split: "[0..?ts - 1] = [0..?ts - 1 - 1] @ [?ts - 1]"
    using assms(1) by (intro upto_rec2) simp
  have steps: "arc_steps (?ts - 1) ?ts ?pts = [0..?pts - 1] @ [?pts]"
    using assms(2) by (simp add: arc_steps_def upto_rec2)
  show ?thesis
    unfolding generateCyclogon_points
    by (subst split) (simp add: side_samples_def steps)
qed

text \<open>
  C5. For every polygon with \<open>n \<ge> 3\<close> sides and positive radius, and every positive integer
  cycle count \<open>k\<close>, the metadata \<open>totalDistance\<close> of the curve of \<open>generateCyclogon\<close> is
  \<open>k * n * sideLength\<close>, where \<open>sideLength = 2 * radius * sin (\<pi> / n)\<close>.
\<close>

theorem totalDistance_integer_cycles:
  assumes "3 \<le> n" and "0 < r" and "0 < k"
  shows "\<exists>pg. new_Polygon n r off = Inr pg \<and>
           getMetadataValue (generateCyclogon opts pg p (real k)) ''totalDistance''
             = Some (real k * real n * (2 * r * sin (pi / real n)))"
  using assms
  by (simp add: new_Polygon_def getMetadataValue_def generateCyclogon_totalDistance
      calculateGeometry_def Let_def getSideLength_def flip: of_nat_mult)

theorem totalDistance_integer_cycles_witness:
  "(3::nat) \<le> 3 \<and> (0::real) < 1 \<and> (0::nat) < 2 \<and>
   (\<exists>pg. new_Polygon 3 1 (- HALF_PI) = Inr pg \<and>
      getMetadataValue (generateCyclogon (new_CyclogonCalculator None None None) pg
                          \<lparr>vx = 0, vy = 1\<rparr> (real (2::nat))) ''totalDistance''
        = Some (real (2::nat) * real (3::nat) * (2 * 1 * sin (pi / real (3::nat)))))"
  using totalDistance_integer_cycles [of 3 1 2 "- HALF_PI" "new_CyclogonCalculator None None None"
          "\<lparr>vx = 0, vy = 1\<rparr>"]
  by simp


subsection \<open>Example inputs\<close>

definition default_options :: calc_options where
  "default_options = new_CyclogonCalculator None None None"

definition unit_circle :: circle where
  "unit_circle = \<lparr>c_radius = 1, c_center = origin\<rparr>"

definition unit_square :: polygon where
  "unit_square = calculateGeometry
     \<lparr>p_sides = 4, p_radius = 1, p_rotationOffset = - HALF_PI, p_vertices = [], p_edges = []\<rparr>"

lemma default_options_simps:
  "pointsPerSide default_options = 50" "pointsPerRadian default_options = 30"
  by (simp_all add: default_options_def new_CyclogonCalculator_def js_or_def
      POINTS_PER_SIDE_def POINTS_PER_RADIAN_def)

lemma unit_square_sides: "p_sides unit_square = 4"
  by (simp add: unit_square_def calculateGeometry_def Let_def)

lemma unit_square_constructed: "new_Polygon 4 1 (- HALF_PI) = Inr unit_square"
  by (simp add: new_Polygon_def unit_square_def)

lemma js_mod1_int: "js_mod1 (of_int m) = 0"
  by (simp add: js_mod1_def)

lemma js_mod1_half: "js_mod1 (9 / 2) = 1 / 2"
proof -
  have "\<lfloor>9 / 2 :: real\<rfloor> = 4" by linarith
  then show ?thesis by (simp add: js_mod1_def)
qed

lemma js_mod1_six: "js_mod1 6 = 0"
  using js_mod1_int [of 6] by simp

lemma pointsForSide_one_and_half:
  "pointsForSide opts (3 / 2) 4 6 5 = \<lceil>pointsPerSide opts\<rceil>"
  by (simp add: pointsForSide_def Let_def js_mod1_six)

lemma pointsForSide_nine_eighths:
  "pointsForSide opts (9 / 8) 4 5 4 = \<lceil>pointsPerSide opts * (1 / 2)\<rceil>"
  by (simp add: pointsForSide_def Let_def js_mod1_half)

lemma square_one_and_half:
  assumes "p_sides pg = 4" and "0 < pointsPerSide opts"
  shows "last (g_points (generateCyclogon opts pg p (3 / 2))) =
           cyclogon_sample opts pg (adjustedDrawPoint pg p) (getExteriorAngle pg)
             (5 * getExteriorAngle pg) (getSideLength pg + 5 * getSideLength pg) 5
             \<lceil>pointsPerSide opts\<rceil>"
proof -
  have ts: "\<lceil>3 / 2 * real (p_sides pg)\<rceil> = 6"
    by (simp add: assms(1))
  have "0 \<le> \<lceil>pointsPerSide opts\<rceil>"
    using assms(2) by linarith
  then show ?thesis
    using generateCyclogon_last [of "3 / 2" pg opts p]
    by (simp add: ts assms(1) pointsForSide_one_and_half)
qed

lemma square_nine_eighths:
  assumes "p_sides pg = 4" and "0 < pointsPerSide opts"
  shows "last (g_points (generateCyclogon opts pg p (9 / 8))) =
           cyclogon_sample opts pg (adjustedDrawPoint pg p) (getExteriorAngle pg)
             (4 * getExteriorAngle pg) (getSideLength pg + 4 * getSideLength pg) 4
             \<lceil>pointsPerSide opts * (1 / 2)\<rceil>"
proof -
  have "\<lceil>9 / 2 :: real\<rceil> = 5" by linarith
  then have ts: "\<lceil>9 / 8 * real (p_sides pg)\<rceil> = 5"
    by (simp add: assms(1))
  have "0 \<le> \<lceil>pointsPerSide opts * (1 / 2)\<rceil>"
    using assms(2) by (simp add: ceiling_le_iff le_ceiling_iff)
  then show ?thesis
    using generateCyclogon_last [of "9 / 8" pg opts p] pointsForSide_nine_eighths [of opts]
    by (simp add: ts assms(1))
qed

lemma cyclogon_sample_fields:
  "sample_sideIndex (cyclogon_sample opts pg adj ea rot px si q) = Some si"
  "sample_param (cyclogon_sample opts pg adj ea rot px si q) = Some (rot + of_int q / pointsPerSide opts * ea)"
  "sample_pivot (cyclogon_sample opts pg adj ea rot px si q) = Some \<lparr>vx = px, vy = 0\<rparr>"
  by (simp_all add: cyclogon_sample_def Let_def sample_sideIndex_def sample_param_def sample_pivot_def)

text \<open>
  C4 as stated: for a square with \<open>cycles = 1.5\<close> the final side is a partial arc whose last
  sample has swept half of the exterior angle. It fails for the unit square and the default
  options: \<open>cycles * n = 6\<close> has no fractional part, the final side (index 5) has the full 50
  steps and its last sample has swept the whole exterior angle.
\<close>

theorem square_partial_arc_counterexample:
  "pointsForSide default_options (3 / 2) 4 6 5 = 50 \<and>
   sample_sideIndex (last (g_points (generateCyclogon default_options unit_square \<lparr>vx = 0, vy = 1\<rparr> (3 / 2))))
     = Some 5 \<and>
   sample_param (last (g_points (generateCyclogon default_options unit_square \<lparr>vx = 0, vy = 1\<rparr> (3 / 2))))
     = Some (5 * (TWO_PI / 4) + TWO_PI / 4) \<and>
   sample_param (last (g_points (generateCyclogon default_options unit_square \<lparr>vx = 0, vy = 1\<rparr> (3 / 2))))
     \<noteq> Some (5 * (TWO_PI / 4) + (TWO_PI / 4) / 2)"
  using square_one_and_half [OF unit_square_sides, of default_options "\<lparr>vx = 0, vy = 1\<rparr>"]
  by (simp add: default_options_simps cyclogon_sample_fields getExteriorAngle_def unit_square_sides
      TWO_PI_def pointsForSide_one_and_half)

text \<open>
  C4, amended. For a square of any radius with \<open>cycles = 1.5\<close>, \<open>cycles * n = 6\<close> is an integer
  and the final side is a full arc: it has \<open>ceil pointsPerSide\<close> steps, its pivot is at
  \<open>x = 6 * sideLength\<close> and its last sample has swept \<open>ceil pointsPerSide / pointsPerSide\<close> of
  the exterior angle (all of it for the default 50). A partial final arc needs a fractional
  \<open>cycles * n\<close>: with \<open>cycles = 1.125\<close> (\<open>cycles * n = 4.5\<close>) the final side (index 4,
  pivot at \<open>x = 5 * sideLength\<close>) has \<open>ceil (pointsPerSide * 0.5)\<close> steps, and for the default
  50 its last sample has swept half of the exterior angle.
\<close>

theorem square_final_arc:
  assumes "p_sides pg = 4" and "0 < pointsPerSide opts"
  shows
   "pointsForSide opts (3 / 2) 4 6 5 = \<lceil>pointsPerSide opts\<rceil> \<and>
    sample_sideIndex (last (g_points (generateCyclogon opts pg p (3 / 2)))) = Some 5 \<and>
    sample_pivot (last (g_points (generateCyclogon opts pg p (3 / 2))))
      = Some \<lparr>vx = 6 * getSideLength pg, vy = 0\<rparr> \<and>
    sample_param (last (g_points (generateCyclogon opts pg p (3 / 2))))
      = Some (5 * getExteriorAngle pg
              + of_int \<lceil>pointsPerSide opts\<rceil> / pointsPerSide opts * getExteriorAngle pg) \<and>
    pointsForSide opts (9 / 8) 4 5 4 = \<lceil>pointsPerSide opts * (1 / 2)\<rceil> \<and>
    sample_sideIndex (last (g_points (generateCyclogon opts pg p (9 / 8)))) = Some 4 \<and>
    sample_pivot (last (g_points (generateCyclogon opts pg p (9 / 8))))
      = Some \<lparr>vx = 5 * getSideLength pg, vy = 0\<rparr> \<and>
    sample_param (last (g_points (generateCyclogon opts pg p (9 / 8))))
      = Some (4 * getExteriorAngle pg
              + of_int \<lceil>pointsPerSide opts * (1 / 2)\<rceil> / pointsPerSide opts * getExteriorAngle pg) \<and>
    (pointsPerSide opts = 50 \<longrightarrow>
       sample_param (last (g_points (generateCyclogon opts pg p (3 / 2))))
         = Some (5 * getExteriorAngle pg + getExteriorAngle pg) \<and>
       sample_param (last (g_points (generateCyclogon opts pg p (9 / 8))))
         = Some (4 * getExteriorAngle pg + getExteriorAngle pg / 2))"
  using square_one_and_half [OF assms, of p] square_nine_eighths [OF assms, of p]
  by (simp add: cyclogon_sample_fields pointsForSide_one_and_half pointsForSide_nine_eighths)

theorem square_final_arc_witness:
  "p_sides unit_square = 4 \<and> 0 < pointsPerSide default_options \<and>
   pointsPerSide default_options = 50 \<and>
   pointsForSide default_options (9 / 8) 4 5 4 = 25 \<and>
   sample_param (last (g_points (generateCyclogon default_options unit_square \<lparr>vx = 0, vy = 1\<rparr> (9 / 8))))
     = Some (4 * getExteriorAngle unit_square + getExteriorAngle unit_square / 2) \<and>
   sample_param (last (g_points (generateCyclogon default_options unit_square \<lparr>vx = 0, vy = 1\<rparr> (3 / 2))))
     = Some (5 * getExteriorAngle unit_square + getExteriorAngle unit_square)"
  using square_final_arc [OF unit_square_sides, of default_options "\<lparr>vx = 0, vy = 1\<rparr>"]
  by (simp add: default_options_simps unit_square_sides)


section \<open>Cycle counts that are not positive\<close>

lemma generateCyclogon_nonpositive:
  assumes "cycles \<le> 0"
  shows "g_points (generateCyclogon opts pg p cycles) = []"
proof -
  have "cycles * real (p_sides pg) \<le> 0"
    using assms by (simp add: mult_le_0_iff)
  then have "\<lceil>cycles * real (p_sides pg)\<rceil> \<le> 0"
    by (simp add: ceiling_le_iff)
  then show ?thesis
    by (simp add: generateCyclogon_points)
qed

lemma generateCycloid_nonpositive:
  assumes "cycles \<le> 0" and "0 < pointsPerRadian opts"
  shows "generateCycloid opts circ p cycles = NotFinite \<and> cycloid_numPoints opts cycles = 0 \<or>
         (\<exists>g. generateCycloid opts circ p cycles = Finite g \<and> g_points g = [])"
proof (cases "cycloid_numPoints opts cycles = 0")
  case True
  then show ?thesis
    by (simp add: generateCycloid_def cycloid_numPoints_def Let_def)
next
  case False
  have "cycles * TWO_PI * pointsPerRadian opts \<le> 0"
    using assms by (simp add: TWO_PI_def mult_le_0_iff)
  then have "cycloid_numPoints opts cycles \<le> 0"
    by (simp add: cycloid_numPoints_def ceiling_le_iff)
  then have "cycloid_numPoints opts cycles < 0"
    using False by simp
  then show ?thesis
    using generateCycloid_points [OF False, of circ p] by auto
qed

text \<open>
  C2 as stated: for every shape and every cycle count \<open>\<le> 0\<close>, \<open>generate\<close> fails with an
  InvalidParameter error. It fails for the unit circle with \<open>cycles = -1\<close> and for the unit
  square with \<open>cycles = 0\<close>: no error is raised.
\<close>

theorem nonpositive_cycles_counterexample:
  "\<not> isl (generate default_options (Circle unit_circle) \<lparr>vx = 0, vy = 1\<rparr> (- 1)) \<and>
   \<not> isl (generate default_options (Polygon unit_square) \<lparr>vx = 0, vy = 1\<rparr> 0)"
  by (simp add: generate_def)

text \<open>
  C2, amended. For every circle or polygon and every cycle count \<open>\<le> 0\<close>, \<open>generate\<close> raises no
  error: the cycle count is not checked. It returns a curve without samples, except for a
  circle with \<open>ceil (cycles * 2 \<pi> * pointsPerRadian) = 0\<close>, whose curve holds one sample
  computed from \<open>0 / 0\<close>.
\<close>

theorem nonpositive_cycles_not_rejected:
  assumes "cycles \<le> 0" and "sh \<noteq> OtherShape" and "0 < pointsPerRadian opts"
  shows "generate opts sh p cycles = Inr NotFinite \<and> (\<exists>c. sh = Circle c) \<and>
           cycloid_numPoints opts cycles = 0 \<or>
         (\<exists>g. generate opts sh p cycles = Inr (Finite g) \<and> g_points g = [])"
proof (cases sh)
  case (Circle c)
  then show ?thesis
    using generateCycloid_nonpositive [OF assms(1) assms(3), of c p]
    by (auto simp: generate_def)
next
  case (Polygon pg)
  then show ?thesis
    using generateCyclogon_nonpositive [OF assms(1), of opts pg p]
    by (simp add: generate_def)
next
  case OtherShape
  then show ?thesis
    using assms(2) by simp
qed

theorem nonpositive_cycles_not_rejected_witness:
  "(- 1 :: real) \<le> 0 \<and> Circle unit_circle \<noteq> OtherShape \<and> 0 < pointsPerRadian default_options \<and>
   (\<exists>g. generate default_options (Circle unit_circle) \<lparr>vx = 0, vy = 1\<rparr> (- 1) = Inr (Finite g) \<and>
        g_points g = [])"
proof -
  have "- 1 * TWO_PI * 30 \<le> - 1"
    using pi_ge_two by (simp add: TWO_PI_def)
  then have "cycloid_numPoints default_options (- 1) \<le> - 1"
    unfolding cycloid_numPoints_def default_options_simps
    by (simp add: ceiling_le_iff)
  then have "cycloid_numPoints default_options (- 1) \<noteq> 0"
    by simp
  then show ?thesis
    using nonpositive_cycles_not_rejected
            [of "- 1" "Circle unit_circle" default_options "\<lparr>vx = 0, vy = 1\<rparr>"]
    by (simp add: default_options_simps)
qed

section \<open>The order of the samples\<close>

text \<open>
  A curve is in strictly increasing parametric order when every sample records a parameter
  (\<open>theta\<close> or \<open>rotation\<close>) and each one is less than all the later ones.
\<close>

definition param_less :: "real option \<Rightarrow> real option \<Rightarrow> bool" where
  "param_less a b =
     (case a of None \<Rightarrow> False | Some u \<Rightarrow> (case b of None \<Rightarrow> False | Some v \<Rightarrow> u < v))"

definition strictly_increasing :: "cyclogon \<Rightarrow> bool" where
  "strictly_increasing g = sorted_wrt param_less (map sample_param (g_points g))"

lemma param_less_Some [simp]: "param_less (Some u) (Some v) \<longleftrightarrow> u < v"
  by (simp add: param_less_def)

lemma sorted_wrt_concat_map:
  assumes "sorted_wrt (<) ks"
    and "\<And>k. k \<in> set ks \<Longrightarrow> sorted_wrt R (f k)"
    and "\<And>k k' a b. k \<in> set ks \<Longrightarrow> k' \<in> set ks \<Longrightarrow> k < k' \<Longrightarrow> a \<in> set (f k) \<Longrightarrow> b \<in> set (f k')
           \<Longrightarrow> R a b"
  shows "sorted_wrt R (concat (map f (ks :: int list)))"
  using assms
proof (induction ks)
  case Nil
  then show ?case by simp
next
  case (Cons k ks)
  have "sorted_wrt R (concat (map f ks))"
  proof (rule Cons.IH)
    show "sorted_wrt (<) ks"
      using Cons.prems(1) by simp
  next
    fix j assume "j \<in> set ks"
    then show "sorted_wrt R (f j)"
      using Cons.prems(2) [of j] by simp
  next
    fix j j' a b
    assume "j \<in> set ks" "j' \<in> set ks" "j < j'" "a \<in> set (f j)" "b \<in> set (f j')"
    then show "R a b"
      using Cons.prems(3) [of j j' a b] by simp
  qed
  moreover have "sorted_wrt R (f k)"
    using Cons.prems(2) by simp
  moreover have "R a b" if ina: "a \<in> set (f k)" and inb: "b \<in> set (concat (map f ks))" for a b
  proof -
    obtain j where "j \<in> set ks" and "b \<in> set (f j)"
      using inb by auto
    moreover have "k < j"
      using Cons.prems(1) \<open>j \<in> set ks\<close> by simp
    ultimately show ?thesis
      using Cons.prems(3) [of k j a b] ina by simp
  qed
  ultimately show ?case
    by (simp add: sorted_wrt_append)
qed

lemma cycloid_increasing:
  assumes "0 < pointsPerRadian opts" and "generateCycloid opts circ p cycles = Finite g"
  shows "strictly_increasing g"
proof -
  let ?N = "cycloid_numPoints opts cycles"
  let ?T = "cycles * TWO_PI"
  have N0: "?N \<noteq> 0"
    using assms(2) by (auto simp: generateCycloid_def Let_def cycloid_numPoints_def split: if_splits)
  then have pts: "g_points g =
      map (cycloid_sample (c_radius circ) (sqrt ((vx p)\<^sup>2 + (vy p)\<^sup>2)) (js_atan2 (vy p) (vx p)) ?T ?N)
        [0..?N]"
    using generateCycloid_points [OF N0, of circ p] assms(2) by simp
  show ?thesis
  proof (cases "?N < 0")
    case True
    then show ?thesis
      by (simp add: strictly_increasing_def pts)
  next
    case False
    then have N: "1 \<le> ?N"
      using N0 by simp
    then have "0 < ?T * pointsPerRadian opts"
      unfolding cycloid_numPoints_def by (simp add: less_ceiling_iff)
    then have T: "0 < ?T"
      using assms(1) by (simp add: zero_less_mult_iff)
    have mono: "real_of_int i / real_of_int ?N * ?T < real_of_int j / real_of_int ?N * ?T"
      if "i < j" for i j
    proof -
      have "real_of_int i / real_of_int ?N < real_of_int j / real_of_int ?N"
        using that N by (simp add: divide_strict_right_mono)
      then show ?thesis
        using T by (rule mult_strict_right_mono)
    qed
    have "sorted_wrt (\<lambda>i j. real_of_int i / real_of_int ?N * ?T < real_of_int j / real_of_int ?N * ?T) [0..?N]"
      by (rule sorted_wrt_mono_rel [OF _ sorted_wrt_upto]) (use mono in blast)
    then show ?thesis
      by (simp add: strictly_increasing_def pts sorted_wrt_map comp_def cycloid_sample_def Let_def
          sample_param_def)
  qed
qed

lemma pointsForSide_full:
  "k \<noteq> ts - 1 \<Longrightarrow> pointsForSide opts cycles n ts k = \<lceil>pointsPerSide opts\<rceil>"
  by (simp add: pointsForSide_def Let_def)

lemma cyclogon_increasing:
  assumes "0 < pointsPerSide opts" and "0 < p_sides pg"
  shows "strictly_increasing (generateCyclogon opts pg p cycles)"
proof -
  let ?ts = "\<lceil>cycles * real (p_sides pg)\<rceil>"
  let ?ea = "getExteriorAngle pg"
  let ?par = "\<lambda>s. sample_param s"
  let ?side = "side_samples opts pg (adjustedDrawPoint pg p) cycles (getSideLength pg) ?ea ?ts"
  have ea: "0 < ?ea"
    using assms(2) by (simp add: getExteriorAngle_def TWO_PI_def)
  have step: "real_of_int q / pointsPerSide opts * ?ea < real_of_int q' / pointsPerSide opts * ?ea"
    if "q < q'" for q q'
  proof -
    have "real_of_int q / pointsPerSide opts < real_of_int q' / pointsPerSide opts"
      using that assms(1) by (simp add: divide_strict_right_mono)
    then show ?thesis
      using ea by (rule mult_strict_right_mono)
  qed
  have within: "sorted_wrt (\<lambda>a b. param_less (?par a) (?par b)) (?side k)" for k
  proof -
    have "sorted_wrt (\<lambda>q q'. real_of_int q / pointsPerSide opts * ?ea
                               < real_of_int q' / pointsPerSide opts * ?ea) qs"
      if "sorted_wrt (<) qs" for qs
      by (rule sorted_wrt_mono_rel [OF _ that]) (use step in blast)
    then show ?thesis
      by (simp add: side_samples_def sorted_wrt_map comp_def cyclogon_sample_fields arc_steps_def)
  qed
  have between: "param_less (?par a) (?par b)"
    if k: "k \<in> set [0..?ts - 1]" and k': "k' \<in> set [0..?ts - 1]" and kk': "k < k'"
      and ina: "a \<in> set (?side k)" and inb: "b \<in> set (?side k')"
    for k k' a b
  proof -
    have notlast: "k < ?ts - 1"
      using k k' kk' by simp
    then obtain q where a: "a = cyclogon_sample opts pg (adjustedDrawPoint pg p) ?ea
            (of_int k * ?ea) (getSideLength pg + of_int k * getSideLength pg) k q"
      and q: "q \<le> \<lceil>pointsPerSide opts\<rceil> - 1"
      using ina by (auto simp: side_samples_def arc_steps_def pointsForSide_full)
    obtain q' where b: "b = cyclogon_sample opts pg (adjustedDrawPoint pg p) ?ea
            (of_int k' * ?ea) (getSideLength pg + of_int k' * getSideLength pg) k' q'"
      and q': "0 \<le> q'"
      using inb by (auto simp: side_samples_def arc_steps_def split: if_splits)
    have "real_of_int q < pointsPerSide opts"
      using q by linarith
    then have "real_of_int q / pointsPerSide opts < 1"
      using assms(1) by simp
    then have "real_of_int q / pointsPerSide opts * ?ea < 1 * ?ea"
      using ea by (rule mult_strict_right_mono)
    then have "of_int k * ?ea + real_of_int q / pointsPerSide opts * ?ea < of_int (k + 1) * ?ea"
      by (simp add: algebra_simps)
    also have "\<dots> \<le> of_int k' * ?ea"
      using kk' ea by (intro mult_right_mono) (simp_all flip: of_int_le_iff)
    also have "\<dots> \<le> of_int k' * ?ea + real_of_int q' / pointsPerSide opts * ?ea"
      using q' assms(1) ea by simp
    finally show ?thesis
      by (simp add: a b cyclogon_sample_fields)
  qed
  have "sorted_wrt (\<lambda>a b. param_less (?par a) (?par b)) (concat (map ?side [0..?ts - 1]))"
    by (rule sorted_wrt_concat_map) (use within between in \<open>auto\<close>)
  then show ?thesis
    by (simp add: strictly_increasing_def generateCyclogon_points sorted_wrt_map)
qed


lemma translate_params: "map sample_param (g_points (translate g dx dy)) = map sample_param (g_points g)"
  by (simp add: translate_def sample_param_def comp_def)

lemma scale_params: "map sample_param (g_points (scale g k)) = map sample_param (g_points g)"
  by (simp add: scale_def sample_param_def comp_def)

lemma normalize_params:
  "normalize g = Normalized g' f \<Longrightarrow> map sample_param (g_points g') = map sample_param (g_points g)"
  by (auto simp: normalize_def Let_def sample_param_def comp_def split: option.splits if_splits)

text \<open>
  C6. Every curve returned by \<open>generate\<close> has its samples in strictly increasing parametric
  order: the recorded \<open>theta\<close> of a cycloid and the recorded cumulative \<open>rotation\<close> of a
  cyclogon increase strictly from sample to sample (so the sample shared by two consecutive
  sides occurs once), and \<open>translate\<close>, \<open>scale\<close> and \<open>normalize\<close> keep that order. For a
  positive cycle count a curve is returned. The options of the calculator are positive.
\<close>

theorem generated_order:
  assumes "0 < pointsPerRadian opts" and "0 < pointsPerSide opts"
    and "\<forall>pg. sh = Polygon pg \<longrightarrow> 3 \<le> p_sides pg"
  shows "(0 < cycles \<and> sh \<noteq> OtherShape \<longrightarrow> (\<exists>g. generate opts sh p cycles = Inr (Finite g))) \<and>
         (\<forall>g. generate opts sh p cycles = Inr (Finite g) \<longrightarrow>
            strictly_increasing g \<and>
            strictly_increasing (translate g dx dy) \<and>
            strictly_increasing (scale g k) \<and>
            (\<forall>g' f. normalize g = Normalized g' f \<longrightarrow> strictly_increasing g'))"
proof (intro conjI allI impI)
  assume pos: "0 < cycles \<and> sh \<noteq> OtherShape"
  then have "cycloid_numPoints opts cycles \<noteq> 0"
    using numPoints_pos [of cycles opts] assms(1) by simp
  then have "\<exists>g. generateCycloid opts c p cycles = Finite g" for c
    using generateCycloid_points [of opts cycles c p] by blast
  then show "\<exists>g. generate opts sh p cycles = Inr (Finite g)"
    using pos by (cases sh) (simp_all add: generate_def)
next
  fix g
  assume gen: "generate opts sh p cycles = Inr (Finite g)"
  show inc: "strictly_increasing g"
  proof (cases sh)
    case (Circle c)
    then show ?thesis
      using gen cycloid_increasing [OF assms(1), of c p cycles g] by (simp add: generate_def)
  next
    case (Polygon pg)
    then have "0 < p_sides pg"
      using assms(3) by auto
    then show ?thesis
      using gen Polygon cycloid_increasing cyclogon_increasing [OF assms(2), of pg p cycles]
      by (auto simp: generate_def)
  next
    case OtherShape
    then show ?thesis
      using gen by (simp add: generate_def)
  qed
  show "strictly_increasing (translate g dx dy)"
    using inc by (simp add: strictly_increasing_def translate_params)
  show "strictly_increasing (scale g k)"
    using inc by (simp add: strictly_increasing_def scale_params)
  fix g' f
  assume "normalize g = Normalized g' f"
  then show "strictly_increasing g'"
    using inc normalize_params [of g g' f] by (simp add: strictly_increasing_def)
qed

theorem generated_order_witness:
  "0 < pointsPerRadian default_options \<and> 0 < pointsPerSide default_options \<and>
   3 \<le> p_sides unit_square \<and>
   (\<exists>g. generate default_options (Polygon unit_square) \<lparr>vx = 0, vy = 1\<rparr> 1 = Inr (Finite g) \<and>
        strictly_increasing g) \<and>
   (\<exists>g. generate default_options (Circle unit_circle) \<lparr>vx = 0, vy = 1\<rparr> 1 = Inr (Finite g) \<and>
        strictly_increasing g)"
  using generated_order [of default_options "Polygon unit_square" 1 "\<lparr>vx = 0, vy = 1\<rparr>" 0 0 1]
    generated_order [of default_options "Circle unit_circle" 1 "\<lparr>vx = 0, vy = 1\<rparr>" 0 0 1]
  by (simp add: default_options_simps unit_square_sides) blast

section \<open>Simplification\<close>

text \<open>
  The segments of a polyline, and the points within \<open>tol\<close> of one of them, the distance to
  a segment being what \<open>_perpendicularDistance\<close> computes.
\<close>

definition segments :: "sample list \<Rightarrow> (sample \<times> sample) list" where
  "segments r = zip r (tl r)"

definition near_polyline :: "real \<Rightarrow> sample list \<Rightarrow> sample \<Rightarrow> bool" where
  "near_polyline tol r p = (\<exists>(a, b) \<in> set (segments r). perpendicularDistance p a b \<le> tol)"

lemma perpendicularDistance_start: "perpendicularDistance a a b = 0"
  by (simp add: perpendicularDistance_def Let_def)

lemma perpendicularDistance_end: "perpendicularDistance b a b = 0"
  by (simp add: perpendicularDistance_def Let_def)

lemma segments_append_Cons: "segments (xs @ m # ys) = segments (xs @ [m]) @ segments (m # ys)"
proof (induction xs)
  case Nil
  then show ?case by (simp add: segments_def)
next
  case (Cons x xs)
  then show ?case
    by (cases xs) (simp_all add: segments_def)
qed

lemma segments_join:
  assumes "left \<noteq> []" and "right \<noteq> []" and "last left = hd right"
  shows "set (segments (butlast left @ right)) = set (segments left) \<union> set (segments right)"
proof -
  obtain ys where right: "right = hd right # ys"
    using assms(2) by (cases right) auto
  have left: "left = butlast left @ [hd right]"
    using assms(1) assms(3) by (metis append_butlast_last_id)
  have "segments (butlast left @ hd right # ys) = segments (butlast left @ [hd right]) @ segments (hd right # ys)"
    by (rule segments_append_Cons)
  then show ?thesis
    using left right by (metis set_append)
qed

lemma farthest_step_mono: "fst st \<le> fst (farthest_step points j st)"
  by (simp add: farthest_step_def Let_def)

lemma farthest_fold_mono: "fst st \<le> fst (fold (farthest_step points) ks st)"
proof (induction ks arbitrary: st)
  case Nil
  then show ?case by simp
next
  case (Cons j js)
  have "fst st \<le> fst (farthest_step points j st)"
    by (rule farthest_step_mono)
  also have "\<dots> \<le> fst (fold (farthest_step points) js (farthest_step points j st))"
    by (rule Cons.IH)
  finally show ?case by simp
qed

lemma farthest_fold_bound:
  "i \<in> set is \<Longrightarrow>
   perpendicularDistance (points ! i) (points ! 0) (points ! (length points - 1))
     \<le> fst (fold (farthest_step points) is st)"
proof (induction "is" arbitrary: st)
  case Nil
  then show ?case by simp
next
  case (Cons j js)
  show ?case
  proof (cases "i = j")
    case True
    have "perpendicularDistance (points ! i) (points ! 0) (points ! (length points - 1))
            \<le> fst (farthest_step points j st)"
      using True by (simp add: farthest_step_def Let_def)
    also have "\<dots> \<le> fst (fold (farthest_step points) js (farthest_step points j st))"
      by (rule farthest_fold_mono)
    finally show ?thesis by simp
  next
    case False
    then have "i \<in> set js"
      using Cons.prems by simp
    then show ?thesis
      using Cons.IH by simp
  qed
qed

lemma farthest_bound:
  "1 \<le> i \<Longrightarrow> i < length points - 1 \<Longrightarrow>
   perpendicularDistance (points ! i) (points ! 0) (points ! (length points - 1)) \<le> fst (farthest points)"
  unfolding farthest_def by (rule farthest_fold_bound) simp

lemma farthest_fold_pos:
  "(fst st = 0 \<and> snd st = 0) \<or> (0 < fst st \<and> 1 \<le> snd st) \<Longrightarrow> \<forall>i \<in> set is. 1 \<le> i \<Longrightarrow>
   (fst (fold (farthest_step points) is st) = 0 \<and> snd (fold (farthest_step points) is st) = 0) \<or>
   (0 < fst (fold (farthest_step points) is st) \<and> 1 \<le> snd (fold (farthest_step points) is st))"
proof (induction "is" arbitrary: st)
  case Nil
  then show ?case by simp
next
  case (Cons j js)
  have "(fst (farthest_step points j st) = 0 \<and> snd (farthest_step points j st) = 0) \<or>
        (0 < fst (farthest_step points j st) \<and> 1 \<le> snd (farthest_step points j st))"
    using Cons.prems by (auto simp: farthest_step_def Let_def)
  then show ?case
    using Cons.IH [of "farthest_step points j st"] Cons.prems(2) by simp
qed

lemma farthest_pos_index: "0 < fst (farthest points) \<Longrightarrow> 1 \<le> snd (farthest points)"
  using farthest_fold_pos [of "(0, 0)" "[1..<length points - 1]" points]
  by (auto simp: farthest_def)


lemma near_polyline_join:
  assumes "left \<noteq> []" and "right \<noteq> []" and "last left = hd right"
    and "near_polyline tol left p \<or> near_polyline tol right p"
  shows "near_polyline tol (butlast left @ right) p"
  using assms(4) unfolding near_polyline_def segments_join [OF assms(1-3)] by auto

lemma two_point_cover:
  assumes "3 \<le> length points" and "fst (farthest points) \<le> tol" and "p \<in> set points"
  shows "near_polyline tol [points ! 0, points ! (length points - 1)] p"
proof -
  obtain i where i: "i < length points" and p: "p = points ! i"
    using assms(3) by (auto simp: in_set_conv_nth)
  have "0 \<le> fst (farthest points)"
    using farthest_fold_mono [of "(0, 0)" points "[1..<length points - 1]"] by (simp add: farthest_def)
  then have tol: "0 \<le> tol"
    using assms(2) by simp
  have "perpendicularDistance p (points ! 0) (points ! (length points - 1)) \<le> tol"
  proof (cases "i = 0 \<or> i = length points - 1")
    case True
    then show ?thesis
      using tol p by (auto simp: perpendicularDistance_start perpendicularDistance_end)
  next
    case False
    then have "1 \<le> i" and "i < length points - 1"
      using i by auto
    then show ?thesis
      using farthest_bound [of i points] assms(2) p by simp
  qed
  then show ?thesis
    by (simp add: near_polyline_def segments_def)
qed

lemma ends_subseq:
  assumes "2 \<le> length points"
  shows "subseq [points ! 0, points ! (length points - 1)] points"
proof -
  obtain a rest where ar: "points = a # rest"
    using assms by (cases points) auto
  then have "rest \<noteq> []"
    using assms by auto
  then obtain mid b where rest: "rest = mid @ [b]"
    by (metis append_butlast_last_id)
  have "subseq ([a] @ [] @ [b]) ([a] @ mid @ [b])"
    by (intro list_emb_append_mono) simp_all
  then show ?thesis
    by (simp add: ar rest nth_append)
qed

lemma douglasPeucker_correct:
  "0 \<le> tolerance \<Longrightarrow> 2 \<le> length points \<Longrightarrow>
   \<exists>r. douglasPeucker points tolerance = Inr r \<and> 2 \<le> length r \<and>
       hd r = hd points \<and> last r = last points \<and> subseq r points \<and>
       (\<forall>p \<in> set points. near_polyline tolerance r p)"
proof (induction points tolerance rule: douglasPeucker.induct)
  case (1 points tolerance)
  let ?k = "snd (farthest points)"
  have ne: "points \<noteq> []"
    using "1.prems"(2) by auto
  show ?case
  proof (cases "length points < 3")
    case True
    then obtain a b where ab: "points = [a, b]"
      using "1.prems"(2) by (cases points; cases "tl points"; cases "tl (tl points)") auto
    have "\<forall>p \<in> set points. near_polyline tolerance points p"
      using "1.prems"(1)
      by (auto simp: ab near_polyline_def segments_def perpendicularDistance_start
          perpendicularDistance_end)
    then show ?thesis
      using True "1.prems"(2) by (subst douglasPeucker.simps) simp
  next
    case False
    then have len: "3 \<le> length points" by simp
    show ?thesis
    proof (cases "tolerance < fst (farthest points)")
      case far: True
      then have "0 < fst (farthest points)"
        using "1.prems"(1) by simp
      then have k1: "1 \<le> ?k"
        by (rule farthest_pos_index)
      then have k0: "?k \<noteq> 0" by simp
      have k2: "?k < length points - 1"
        using farthest_index_less [OF len] .
      have take_split: "take (?k + 1) points = take ?k points @ [points ! ?k]"
        using k2 by (simp add: take_Suc_conv_app_nth)
      have drop_split: "drop ?k points = points ! ?k # drop (?k + 1) points"
        using k2 by (simp add: Cons_nth_drop_Suc)
      have hd_take: "hd (take (?k + 1) points) = hd points"
        using ne by (simp add: hd_conv_nth)
      have last_drop: "last (drop ?k points) = last points"
        using k2 by simp
      have last_take: "last (take (?k + 1) points) = points ! ?k"
        by (subst take_split) simp
      have hd_drop: "hd (drop ?k points) = points ! ?k"
        by (subst drop_split) simp
      have take_len: "2 \<le> length (take (?k + 1) points)"
        using k1 k2 by simp
      have drop_len: "2 \<le> length (drop ?k points)"
        using k2 by simp
      obtain left where left: "douglasPeucker (take (?k + 1) points) tolerance = Inr left"
        and left_len: "2 \<le> length left"
        and left_hd': "hd left = hd (take (?k + 1) points)"
        and left_last': "last left = last (take (?k + 1) points)"
        and left_sub: "subseq left (take (?k + 1) points)"
        and left_cov: "\<forall>p \<in> set (take (?k + 1) points). near_polyline tolerance left p"
        using "1.IH"(1) [OF False far k0 "1.prems"(1) take_len] by blast
      have left_hd: "hd left = hd points" and left_last: "last left = points ! ?k"
        using left_hd' left_last' hd_take last_take by simp_all
      obtain right where right: "douglasPeucker (drop ?k points) tolerance = Inr right"
        and right_len: "2 \<le> length right"
        and right_hd': "hd right = hd (drop ?k points)"
        and right_last': "last right = last (drop ?k points)"
        and right_sub: "subseq right (drop ?k points)"
        and right_cov: "\<forall>p \<in> set (drop ?k points). near_polyline tolerance right p"
        using "1.IH"(2) [OF False far k0 left "1.prems"(1) drop_len] by blast
      have right_hd: "hd right = points ! ?k" and right_last: "last right = last points"
        using right_hd' right_last' hd_drop last_drop by simp_all
      let ?r = "butlast left @ right"
      have lne: "left \<noteq> []" and rne: "right \<noteq> []"
        using left_len right_len by auto
      have eq: "douglasPeucker points tolerance = Inr ?r"
        using False far k0 left right by (subst douglasPeucker.simps) simp
      have "2 \<le> length ?r"
        using right_len by simp
      moreover have "hd ?r = hd points"
      proof -
        have "butlast left \<noteq> []"
          using left_len by (cases left; cases "tl left") auto
        then have "hd ?r = hd (butlast left)" by simp
        also have "\<dots> = hd left"
          using left_len by (cases left; cases "tl left") auto
        finally show ?thesis
          using left_hd by simp
      qed
      moreover have "last ?r = last points"
        using rne right_last by simp
      moreover have "subseq ?r points"
      proof -
        have "left = butlast left @ [points ! ?k]"
          using lne left_last by (metis append_butlast_last_id)
        then have "subseq (butlast left @ [points ! ?k]) (take ?k points @ [points ! ?k])"
          using left_sub take_split by simp
        then have "subseq (butlast left) (take ?k points)"
          by (simp only: subseq_append)
        then have "subseq ?r (take ?k points @ drop ?k points)"
          using right_sub by (rule list_emb_append_mono)
        then show ?thesis by simp
      qed
      moreover have "\<forall>p \<in> set points. near_polyline tolerance ?r p"
      proof
        fix p assume "p \<in> set points"
        moreover have "set points = set (take ?k points) \<union> set (drop ?k points)"
          by (metis append_take_drop_id set_append)
        ultimately have "p \<in> set (take ?k points) \<or> p \<in> set (drop ?k points)" by blast
        moreover have "set (take ?k points) \<subseteq> set (take (?k + 1) points)"
          by (subst take_split) auto
        ultimately have "p \<in> set (take (?k + 1) points) \<or> p \<in> set (drop ?k points)"
          by blast
        then have "near_polyline tolerance left p \<or> near_polyline tolerance right p"
          using left_cov right_cov by blast
        then show "near_polyline tolerance ?r p"
          using lne rne left_last right_hd by (intro near_polyline_join) simp_all
      qed
      ultimately show ?thesis
        using eq by simp
    next
      case near: False
      have eq: "douglasPeucker points tolerance = Inr [points ! 0, points ! (length points - 1)]"
        using \<open>\<not> length points < 3\<close> near by (subst douglasPeucker.simps) simp
      have "\<forall>p \<in> set points. near_polyline tolerance [points ! 0, points ! (length points - 1)] p"
        using two_point_cover [OF len] near by simp
      moreover have "subseq [points ! 0, points ! (length points - 1)] points"
        using ends_subseq [OF "1.prems"(2)] .
      ultimately show ?thesis
        using eq ne by (simp add: hd_conv_nth last_conv_nth)
    qed
  qed
qed


text \<open>
  C7. For every curve with at least two samples and every tolerance \<open>\<ge> 0\<close>, \<open>simplify\<close>
  returns a subsequence of the samples that starts with the first and ends with the last
  of them, and every sample of the curve, so every removed one, lies within the tolerance
  of a segment of the simplified polyline.
\<close>

theorem simplify_keeps_ends:
  assumes "2 \<le> pointCount g" and "0 \<le> tolerance"
  shows "\<exists>r. simplify g tolerance = Inr r \<and> subseq r (getPoints g) \<and>
           r \<noteq> [] \<and> hd r = hd (getPoints g) \<and> last r = last (getPoints g) \<and>
           (\<forall>p \<in> set (getPoints g). near_polyline tolerance r p)"
proof -
  have len: "2 \<le> length (getPoints g)"
    using assms(1) by (simp add: pointCount_def getPoints_def)
  obtain r where r: "douglasPeucker (getPoints g) tolerance = Inr r"
    and r_len: "2 \<le> length r"
    and rest: "hd r = hd (getPoints g)" "last r = last (getPoints g)" "subseq r (getPoints g)"
      "\<forall>p \<in> set (getPoints g). near_polyline tolerance r p"
    using douglasPeucker_correct [OF assms(2) len] by blast
  have "simplify g tolerance = Inr r"
  proof (cases "length (getPoints g) < 3")
    case True
    then have "douglasPeucker (getPoints g) tolerance = Inr (getPoints g)"
      by (subst douglasPeucker.simps) simp
    then show ?thesis
      using True r by (simp add: simplify_def Let_def)
  next
    case False
    then show ?thesis
      using r by (simp add: simplify_def Let_def)
  qed
  moreover have "r \<noteq> []"
    using r_len by auto
  ultimately show ?thesis
    using rest by blast
qed

text \<open>Example curves: a bump, whose middle sample is one unit off the chord, and a flat line.\<close>

definition bump_curve :: cyclogon where
  "bump_curve =
     addPoint (addPoint (addPoint (new_Cyclogon MERGED None)
       \<lparr>sx = 0, sy = 0, extra = NoExtra\<rparr>) \<lparr>sx = 1, sy = 1, extra = NoExtra\<rparr>)
       \<lparr>sx = 2, sy = 0, extra = NoExtra\<rparr>"

lemma bump_curve_points:
  "getPoints bump_curve =
     [\<lparr>sx = 0, sy = 0, extra = NoExtra\<rparr>, \<lparr>sx = 1, sy = 1, extra = NoExtra\<rparr>,
      \<lparr>sx = 2, sy = 0, extra = NoExtra\<rparr>]"
  by (simp add: bump_curve_def addPoint_def new_Cyclogon_def getPoints_def)

theorem simplify_keeps_ends_witness:
  "2 \<le> pointCount bump_curve \<and> (0::real) \<le> 2 \<and>
   (\<exists>r. simplify bump_curve 2 = Inr r \<and>
        hd r = \<lparr>sx = 0, sy = 0, extra = NoExtra\<rparr> \<and>
        last r = \<lparr>sx = 2, sy = 0, extra = NoExtra\<rparr> \<and>
        near_polyline 2 r \<lparr>sx = 1, sy = 1, extra = NoExtra\<rparr>)"
proof -
  have "2 \<le> pointCount bump_curve"
    by (simp add: pointCount_def bump_curve_def addPoint_def new_Cyclogon_def)
  then show ?thesis
    using simplify_keeps_ends [of bump_curve 2]
    by (auto simp: bump_curve_points)
qed

lemma farthest_bump:
  "farthest [\<lparr>sx = 0, sy = 0, extra = NoExtra\<rparr>, \<lparr>sx = 1, sy = 1, extra = NoExtra\<rparr>,
             \<lparr>sx = 2, sy = 0, extra = NoExtra\<rparr>] = (1, 1)"
  by (simp add: farthest_def farthest_step_def perpendicularDistance_def Let_def upt_rec)

lemma simplify_bump_removes_middle:
  "simplify bump_curve 2 = Inr [\<lparr>sx = 0, sy = 0, extra = NoExtra\<rparr>, \<lparr>sx = 2, sy = 0, extra = NoExtra\<rparr>]"
  by (simp add: simplify_def Let_def bump_curve_points douglasPeucker.simps farthest_bump)

definition flat_curve :: cyclogon where
  "flat_curve =
     addPoint (addPoint (addPoint (new_Cyclogon MERGED None)
       \<lparr>sx = 0, sy = 0, extra = NoExtra\<rparr>) \<lparr>sx = 1, sy = 0, extra = NoExtra\<rparr>)
       \<lparr>sx = 2, sy = 0, extra = NoExtra\<rparr>"

text \<open>
  The tolerance has to be non-negative: on three collinear samples and the tolerance \<open>-1\<close>
  the farthest distance 0 exceeds the tolerance while \<open>maxIndex\<close> is 0, and the recursion
  does not end.
\<close>

lemma simplify_negative_tolerance:
  "simplify flat_curve (- 1) = Inl RangeError"
proof -
  have pts: "getPoints flat_curve =
     [\<lparr>sx = 0, sy = 0, extra = NoExtra\<rparr>, \<lparr>sx = 1, sy = 0, extra = NoExtra\<rparr>,
      \<lparr>sx = 2, sy = 0, extra = NoExtra\<rparr>]"
    by (simp add: flat_curve_def addPoint_def new_Cyclogon_def getPoints_def)
  have far: "farthest [\<lparr>sx = 0, sy = 0, extra = NoExtra\<rparr>, \<lparr>sx = 1, sy = 0, extra = NoExtra\<rparr>,
             \<lparr>sx = 2, sy = 0, extra = NoExtra\<rparr>] = (0, 0)"
    by (simp add: farthest_def farthest_step_def perpendicularDistance_def Let_def upt_rec)
  show ?thesis
    by (simp add: simplify_def Let_def pts douglasPeucker.simps far)
qed

section \<open>Normalization\<close>

definition single_point_curve :: cyclogon where
  "single_point_curve = addPoint (new_Cyclogon MERGED None) \<lparr>sx = 1, sy = 2, extra = NoExtra\<rparr>"

text \<open>
  C8. For every non-empty curve \<open>normalize\<close> returns \<open>{offsetX, offsetY, scale}\<close>, and
  \<open>scale (scale)\<close> followed by \<open>translate (offsetX, offsetY)\<close> restores the samples. The code
  departs from this on a curve whose samples coincide. For the curve that holds the single
  sample \<open>(1, 2)\<close> the bounding box has width and height 0: \<open>normalize\<close> divides by the scale 0,
  the stored coordinates become NaN, and the factors returned are \<open>{1, 2, 0}\<close>; no scaling
  and translation of NaN gives \<open>(1, 2)\<close> back.
\<close>

theorem normalize_single_point:
  "normalize single_point_curve = NormNaN \<lparr>offsetX = 1, offsetY = 2, nf_scale = 0\<rparr>"
  by (simp add: normalize_def getBoundingBox_def single_point_curve_def addPoint_def
      new_Cyclogon_def Let_def)

lemma fold_min_le_init: "fold (\<lambda>q m. min m (f q)) qs (m0 :: real) \<le> m0"
proof (induction qs arbitrary: m0)
  case Nil
  then show ?case by simp
next
  case (Cons q qs)
  have "fold (\<lambda>q m. min m (f q)) qs (min m0 (f q)) \<le> min m0 (f q)"
    by (rule Cons.IH)
  then show ?case by simp
qed

lemma fold_min_le: "q \<in> set qs \<Longrightarrow> fold (\<lambda>q m. min m (f q)) qs (m0 :: real) \<le> f q"
proof (induction qs arbitrary: m0)
  case Nil
  then show ?case by simp
next
  case (Cons a qs)
  show ?case
  proof (cases "q = a")
    case True
    have "fold (\<lambda>q m. min m (f q)) qs (min m0 (f a)) \<le> min m0 (f a)"
      by (rule fold_min_le_init)
    then show ?thesis
      using True by simp
  next
    case False
    then show ?thesis
      using Cons by simp
  qed
qed

lemma fold_max_ge_init: "(m0 :: real) \<le> fold (\<lambda>q m. max m (f q)) qs m0"
proof (induction qs arbitrary: m0)
  case Nil
  then show ?case by simp
next
  case (Cons q qs)
  have "max m0 (f q) \<le> fold (\<lambda>q m. max m (f q)) qs (max m0 (f q))"
    by (rule Cons.IH)
  then show ?case by simp
qed

lemma fold_max_ge: "q \<in> set qs \<Longrightarrow> f q \<le> fold (\<lambda>q m. max m (f q)) qs (m0 :: real)"
proof (induction qs arbitrary: m0)
  case Nil
  then show ?case by simp
next
  case (Cons a qs)
  show ?case
  proof (cases "q = a")
    case True
    have "max m0 (f a) \<le> fold (\<lambda>q m. max m (f q)) qs (max m0 (f a))"
      by (rule fold_max_ge_init)
    then show ?thesis
      using True by simp
  next
    case False
    then show ?thesis
      using Cons by simp
  qed
qed

lemma boundingBox_contains:
  assumes "getBoundingBox g = Some bbox" and "q \<in> set (g_points g)"
  shows "minX bbox \<le> sx q \<and> sx q \<le> maxX bbox \<and> minY bbox \<le> sy q \<and> sy q \<le> maxY bbox \<and>
         width bbox = maxX bbox - minX bbox \<and> height bbox = maxY bbox - minY bbox"
proof (cases "g_points g")
  case Nil
  then show ?thesis
    using assms by (simp add: getBoundingBox_def)
next
  case (Cons p ps)
  then have q: "q \<in> set (p # ps)"
    using assms(2) by simp
  have "bbox =
     \<lparr>minX = fold (\<lambda>q m. min m (sx q)) (p # ps) (sx p),
      maxX = fold (\<lambda>q m. max m (sx q)) (p # ps) (sx p),
      minY = fold (\<lambda>q m. min m (sy q)) (p # ps) (sy p),
      maxY = fold (\<lambda>q m. max m (sy q)) (p # ps) (sy p),
      width = fold (\<lambda>q m. max m (sx q)) (p # ps) (sx p) - fold (\<lambda>q m. min m (sx q)) (p # ps) (sx p),
      height = fold (\<lambda>q m. max m (sy q)) (p # ps) (sy p) - fold (\<lambda>q m. min m (sy q)) (p # ps) (sy p),
      bb_center =
        \<lparr>vx = (fold (\<lambda>q m. min m (sx q)) (p # ps) (sx p) + fold (\<lambda>q m. max m (sx q)) (p # ps) (sx p)) / 2,
         vy = (fold (\<lambda>q m. min m (sy q)) (p # ps) (sy p) + fold (\<lambda>q m. max m (sy q)) (p # ps) (sy p)) / 2\<rparr>\<rparr>"
    using assms(1) Cons by (simp add: getBoundingBox_def Let_def del: fold_simps)
  then show ?thesis
    using fold_min_le [OF q, of sx "sx p"] fold_max_ge [OF q, of sx "sx p"]
      fold_min_le [OF q, of sy "sy p"] fold_max_ge [OF q, of sy "sy p"]
    by simp
qed

text \<open>When \<open>normalize\<close> meets the scale 0, every sample is at \<open>(minX, minY)\<close>: each division is 0 / 0.\<close>

lemma normalize_NaN_all_zero_over_zero:
  assumes "normalize g = NormNaN f" and "q \<in> set (g_points g)"
  shows "nf_scale f = 0 \<and> sx q - offsetX f = 0 \<and> sy q - offsetY f = 0"
proof -
  obtain bbox where bbox: "getBoundingBox g = Some bbox"
    and k: "max (width bbox) (height bbox) = 0"
    and f: "f = \<lparr>offsetX = minX bbox, offsetY = minY bbox, nf_scale = 0\<rparr>"
    using assms(1) by (auto simp: normalize_def Let_def split: option.splits if_splits)
  have box: "minX bbox \<le> sx q \<and> sx q \<le> maxX bbox \<and> minY bbox \<le> sy q \<and> sy q \<le> maxY bbox \<and>
         width bbox = maxX bbox - minX bbox \<and> height bbox = maxY bbox - minY bbox"
    using boundingBox_contains [OF bbox assms(2)] .
  then have "0 \<le> width bbox" and "0 \<le> height bbox"
    by auto
  then have "width bbox = 0" and "height bbox = 0"
    using k by (auto simp: max_def split: if_splits)
  then show ?thesis
    using box f by simp
qed

text \<open>With a positive scale the returned factors undo the normalization.\<close>

lemma normalize_roundtrip:
  assumes "normalize g = Normalized g' f"
  shows "translate (scale g' (nf_scale f)) (offsetX f) (offsetY f) = g"
proof -
  obtain bbox where bbox: "getBoundingBox g = Some bbox"
    and k: "max (width bbox) (height bbox) \<noteq> 0"
    and f: "f = \<lparr>offsetX = minX bbox, offsetY = minY bbox, nf_scale = max (width bbox) (height bbox)\<rparr>"
    and g': "g' = g\<lparr>g_points := map (\<lambda>p. p\<lparr>sx := (sx p - minX bbox) / max (width bbox) (height bbox),
                                            sy := (sy p - minY bbox) / max (width bbox) (height bbox)\<rparr>)
                                  (g_points g)\<rparr>"
    using assms by (auto simp: normalize_def Let_def split: option.splits if_splits)
  have "map ((\<lambda>p. p\<lparr>sx := sx p + minX bbox, sy := sy p + minY bbox\<rparr>) \<circ>
             (\<lambda>p. p\<lparr>sx := sx p * max (width bbox) (height bbox),
                    sy := sy p * max (width bbox) (height bbox)\<rparr>) \<circ>
             (\<lambda>p. p\<lparr>sx := (sx p - minX bbox) / max (width bbox) (height bbox),
                    sy := (sy p - minY bbox) / max (width bbox) (height bbox)\<rparr>)) (g_points g)
        = map (\<lambda>p. p) (g_points g)"
    using k by (intro map_cong) (simp_all add: comp_def)
  then show ?thesis
    by (simp add: translate_def scale_def g' f comp_def)
qed


section \<open>Polygons built by the constructor\<close>

text \<open>
  The reads and divisions of the polygon model are within their domain for every polygon
  the constructor builds: \<open>getEdge\<close> reads inside \<open>_edges\<close>, and no edge has length 0.
\<close>

lemma constructed_fields:
  assumes "new_Polygon n r off = Inr pg"
  shows "3 \<le> n" "0 < r" "p_sides pg = n" "p_radius pg = r" "p_rotationOffset pg = off"
    "p_vertices pg = calc_vertices n r off" "p_edges pg = calc_edges n (calc_vertices n r off)"
  using assms
  by (auto simp: new_Polygon_def calculateGeometry_def Let_def split: if_splits)

lemma normalizedIndex_in_range:
  assumes "new_Polygon n r off = Inr pg"
  shows "normalizedIndex pg i < length (p_edges pg)"
proof -
  have n: "0 < n"
    using constructed_fields(1) [OF assms] by simp
  have len: "length (p_edges pg) = n"
    by (simp add: constructed_fields(7) [OF assms] calc_edges_def)
  have "js_rem a (int n) < int n" for a
  proof (cases "0 \<le> a")
    case True
    then show ?thesis
      using n by (cases "a = 0") (simp_all add: js_rem_def)
  next
    case False
    then have "js_rem a (int n) \<le> 0"
      using n by (simp add: js_rem_def mult_le_0_iff)
    then show ?thesis
      using n by simp
  qed
  then have "nat (js_rem a (int n)) < n" for a
  proof -
    have "js_rem a (int n) < int n"
      by fact
    then show ?thesis
      using n by linarith
  qed
  then show ?thesis
    by (simp add: normalizedIndex_def len constructed_fields(3) [OF assms])
qed

lemma chord_squared:
  fixes a b :: real
  shows "(cos b - cos a)\<^sup>2 + (sin b - sin a)\<^sup>2 = 2 - 2 * cos (b - a)"
proof -
  have "(cos b - cos a)\<^sup>2 + (sin b - sin a)\<^sup>2
        = ((sin a)\<^sup>2 + (cos a)\<^sup>2) + ((sin b)\<^sup>2 + (cos b)\<^sup>2) - 2 * (cos b * cos a + sin b * sin a)"
    by (simp add: power2_eq_square algebra_simps)
  then show ?thesis
    by (simp add: cos_diff)
qed

lemma cos_step_less_one:
  assumes "3 \<le> n"
  shows "cos (TWO_PI / real n) < 1"
proof -
  have pos: "0 < TWO_PI / real n"
    using assms by (simp add: TWO_PI_def)
  have less: "TWO_PI / real n < 2 * pi"
    using assms by (simp add: TWO_PI_def field_simps)
  have "cos (TWO_PI / real n) \<noteq> 1"
  proof
    assume "cos (TWO_PI / real n) = 1"
    then obtain k :: int where k: "TWO_PI / real n = of_int k * 2 * pi"
      using cos_one_2pi_int by blast
    have "0 < of_int k * (2 * pi)" and "of_int k * (2 * pi) < 1 * (2 * pi)"
      using pos less k by (simp_all add: mult.assoc)
    then have "0 < k" and "k < 1"
      by (simp_all add: zero_less_mult_iff)
    then show False by simp
  qed
  moreover have "cos (TWO_PI / real n) \<le> 1"
    by (rule cos_le_one)
  ultimately show ?thesis
    by (rule order.not_eq_order_implies_strict)
qed


lemma scaled_chord:
  fixes r ca cb sa sb :: real
  shows "(cb * r - ca * r) * (cb * r - ca * r) + (sb * r - sa * r) * (sb * r - sa * r)
         = r\<^sup>2 * ((cb - ca)\<^sup>2 + (sb - sa)\<^sup>2)"
  by (simp add: power2_eq_square algebra_simps)

lemma edge_length_pos:
  assumes "new_Polygon n r off = Inr pg" and "e \<in> set (p_edges pg)"
  shows "0 < getLength e"
proof -
  note f = constructed_fields [OF assms(1)]
  let ?step = "TWO_PI / real n"
  let ?ang = "\<lambda>j. off + real j * ?step"
  obtain i where i: "i < n"
    and e: "e = \<lparr>e_start = vertex_pos (calc_vertices n r off ! i),
                 e_end = vertex_pos (calc_vertices n r off ! ((i + 1) mod n)), e_index = i\<rparr>"
    using assms(2) by (auto simp: f(7) calc_edges_def)
  have n: "0 < n"
    using f(1) by simp
  have vert: "vertex_pos (calc_vertices n r off ! j) = \<lparr>vx = cos (?ang j) * r, vy = sin (?ang j) * r\<rparr>"
    if "j < n" for j
    using that by (simp add: calc_vertices_def Let_def vertex_pos_def)
  let ?j = "(i + 1) mod n"
  have j: "?j < n"
    using n by simp
  have cosd: "cos (?ang ?j - ?ang i) = cos ?step"
  proof (cases "i + 1 < n")
    case True
    then have "?ang ?j - ?ang i = ?step"
      by (simp add: field_simps)
    then show ?thesis
      by simp
  next
    case False
    then have last: "i + 1 = n"
      using i by simp
    then have j0: "Suc i mod n = 0"
      by simp
    have ri: "real i = real n - 1"
      using last by (simp flip: last)
    have "real i * ?step = 2 * pi - ?step"
      using n by (simp add: ri TWO_PI_def field_simps)
    then have "?ang ?j - ?ang i = ?step - 2 * pi"
      by (simp add: j0)
    then show ?thesis
      by (simp add: cos_diff)
  qed
  have "(cos (?ang ?j) * r - cos (?ang i) * r) * (cos (?ang ?j) * r - cos (?ang i) * r)
        + (sin (?ang ?j) * r - sin (?ang i) * r) * (sin (?ang ?j) * r - sin (?ang i) * r)
        = r\<^sup>2 * ((cos (?ang ?j) - cos (?ang i))\<^sup>2 + (sin (?ang ?j) - sin (?ang i))\<^sup>2)"
    by (rule scaled_chord)
  also have "\<dots> = r\<^sup>2 * (2 - 2 * cos ?step)"
    by (simp only: chord_squared cosd)
  also have "\<dots> > 0"
    using f(2) cos_step_less_one [OF f(1)] by simp
  finally show ?thesis
    by (simp add: getLength_def Let_def e vert [OF i] vert [OF j, simplified])
qed

end
